(* ===== verification/Messenger_Prelude.thy ===== *)
theory Messenger_Prelude
  imports Main "HOL-Library.Word"
begin

unbundle bit_operations_syntax

text \<open>
  Types, control effects and list lemmas shared by every component.

  \<^item> \<open>byte\<close>, \<open>u16\<close>, \<open>u32\<close>, \<open>u64\<close>: the fixed-width integers of the code. A
    \<open>std::vector<uint8_t>\<close> is a \<open>byte list\<close>, a \<open>std::string\<close> is a \<open>string\<close>
    (a list of 8-bit characters), and \<open>bytes_of\<close> / \<open>string_of\<close> are the copies
    \<open>vector(s.begin(), s.end())\<close> and \<open>string(v.begin(), v.end())\<close>.
    The \<open>size()\<close> of a container is its \<open>length\<close>, a natural number.
  \<^item> \<open>exn\<close>: the C++ exceptions the code throws, with their message.
  \<^item> \<open>outcome\<close>: how a \<open>void\<close> operation on a state ends. \<open>Done\<close> is a normal return,
    \<open>Raised\<close> an exception that leaves the function, \<open>Stuck\<close> a thread that locks a
    \<open>std::mutex\<close> it holds already: undefined behaviour by the standard, and a thread
    that waits for itself forever with the mutexes of g++.
\<close>

section \<open>Machine types\<close>

type_synonym byte = "8 word"
type_synonym u16 = "16 word"
type_synonym u32 = "32 word"
type_synonym u64 = "64 word"

text \<open>Winsock's \<open>SOCKET\<close> is an unsigned pointer-sized integer and \<open>INVALID_SOCKET\<close> is \<open>~0\<close>.\<close>

type_synonym SOCKET = u64

definition INVALID_SOCKET :: SOCKET where
  "INVALID_SOCKET = - 1"

section \<open>Strings and byte vectors\<close>

definition byte_of_char :: "char \<Rightarrow> byte" where
  "byte_of_char c = word_of_nat (of_char c)"

definition char_of_byte :: "byte \<Rightarrow> char" where
  "char_of_byte b = char_of (unat b)"

definition bytes_of :: "string \<Rightarrow> byte list" where
  "bytes_of s = map byte_of_char s"

definition string_of :: "byte list \<Rightarrow> string" where
  "string_of bs = map char_of_byte bs"

lemma char_of_byte_of_char [simp]: "char_of_byte (byte_of_char c) = c"
proof -
  have "of_char c mod (256::nat) = of_char c" by simp
  then show ?thesis
    by (simp add: char_of_byte_def byte_of_char_def unat_of_nat)
qed

lemma byte_of_char_of_byte [simp]: "byte_of_char (char_of_byte b) = b"
proof -
  have "unat b < 256" using unsigned_less [of b] by simp
  then show ?thesis by (simp add: char_of_byte_def byte_of_char_def)
qed

lemma string_of_bytes_of [simp]: "string_of (bytes_of s) = s"
  by (simp add: string_of_def bytes_of_def comp_def)

lemma bytes_of_string_of [simp]: "bytes_of (string_of bs) = bs"
  by (simp add: string_of_def bytes_of_def comp_def)

lemma length_bytes_of [simp]: "length (bytes_of s) = length s"
  by (simp add: bytes_of_def)

lemma length_string_of [simp]: "length (string_of bs) = length bs"
  by (simp add: string_of_def)

lemma bytes_of_append [simp]: "bytes_of (s @ t) = bytes_of s @ bytes_of t"
  by (simp add: bytes_of_def)

lemma string_of_append [simp]: "string_of (bs @ cs) = string_of bs @ string_of cs"
  by (simp add: string_of_def)

text \<open>\<open>std::to_string\<close> of an unsigned number.\<close>

definition digit :: "nat \<Rightarrow> char" where
  "digit n = char_of (48 + n)"

fun to_string :: "nat \<Rightarrow> string" where
  "to_string n = (if n < 10 then [digit n] else to_string (n div 10) @ [digit (n mod 10)])"

declare to_string.simps [simp del]

definition newline :: string where "newline = [CHR 0x0A]"

definition int_to_string :: "int \<Rightarrow> string" where
  "int_to_string i = (if i < 0 then CHR ''-'' # to_string (nat (- i)) else to_string (nat i))"

lemma count_list_distinct: "distinct xs \<Longrightarrow> count_list xs x = (if x \<in> set xs then 1 else 0)"
  by (induction xs) auto

text \<open>The string a C function reads at \<open>s.c_str()\<close>, or in a buffer: it ends before the first zero.\<close>

definition c_str :: "string \<Rightarrow> string" where
  "c_str s = takeWhile (\<lambda>c. c \<noteq> CHR 0x00) s"

lemma takeWhile_until: "c \<notin> set xs \<Longrightarrow> takeWhile (\<lambda>x. x \<noteq> c) (xs @ c # ys) = xs"
  by (induction xs) auto

lemma c_str_id: "c_str s = s \<longleftrightarrow> CHR 0x00 \<notin> set s"
  by (auto simp: c_str_def takeWhile_eq_all_conv)

lemma c_str_c_str [simp]: "c_str (c_str s) = c_str s"
  by (simp add: c_str_def)

section \<open>Exceptions and outcomes\<close>

datatype exn =
    Runtime_error string
  | Invalid_argument string
  | Out_of_range string
  | Logic_error string
  | Database_exception string
  | Foreign_exception nat

text \<open>What is thrown and is no \<open>std::exception\<close> is a \<open>Foreign_exception\<close>; no handler of the program catches it.\<close>

fun std_exn :: "exn \<Rightarrow> bool" where
  "std_exn (Foreign_exception n) = False"
| "std_exn _ = True"

datatype 's outcome = Done (outcome_state: 's) | Raised exn (outcome_state: 's) | Stuck (outcome_state: 's)

text \<open>
  Statement sequencing: the next statement runs only after a normal end. A congruence rule
  lets recursive functions call themselves in the second statement.
\<close>

fun andthen :: "'s outcome \<Rightarrow> ('s \<Rightarrow> 's outcome) \<Rightarrow> 's outcome" where
  "andthen (Done s) f = f s"
| "andthen (Raised e s) f = Raised e s"
| "andthen (Stuck s) f = Stuck s"

lemma andthen_cong [fundef_cong]:
  "r = r' \<Longrightarrow> (\<And>s. r' = Done s \<Longrightarrow> f s = g s) \<Longrightarrow> andthen r f = andthen r' g"
  by (cases r') auto

text \<open>\<open>try { ... } catch (const std::exception&) { ... }\<close>.\<close>

fun catch_exn :: "'s outcome \<Rightarrow> ('s \<Rightarrow> 's outcome) \<Rightarrow> 's outcome" where
  "catch_exn (Done s) h = Done s"
| "catch_exn (Raised e s) h = (if std_exn e then h s else Raised e s)"
| "catch_exn (Stuck s) h = Stuck s"

text \<open>
  What a destructor of the scope does (a \<open>lock_guard\<close> unlocking, a \<open>unique_ptr\<close>
  deleting): it runs on a normal return and on an exception, and never in a stuck thread.
\<close>

fun on_exit :: "('s \<Rightarrow> 's) \<Rightarrow> 's outcome \<Rightarrow> 's outcome" where
  "on_exit f (Done s) = Done (f s)"
| "on_exit f (Raised e s) = Raised e (f s)"
| "on_exit f (Stuck s) = Stuck s"

text \<open>An operation on a part of a state: every outcome carries the updated whole.\<close>

fun on_part :: "('p \<Rightarrow> 's) \<Rightarrow> 'p outcome \<Rightarrow> 's outcome" where
  "on_part put (Done p) = Done (put p)"
| "on_part put (Raised e p) = Raised e (put p)"
| "on_part put (Stuck p) = Stuck (put p)"

text \<open>
  \<open>returns P r\<close>: the operation is not stuck and \<open>P\<close> holds of the state it leaves,
  normally or by an exception. \<open>unless_stuck P r\<close> claims nothing of a stuck thread.
\<close>

fun returns :: "('s \<Rightarrow> bool) \<Rightarrow> 's outcome \<Rightarrow> bool" where
  "returns P (Done s) = P s"
| "returns P (Raised e s) = P s"
| "returns P (Stuck s) = False"

fun unless_stuck :: "('s \<Rightarrow> bool) \<Rightarrow> 's outcome \<Rightarrow> bool" where
  "unless_stuck P (Done s) = P s"
| "unless_stuck P (Raised e s) = P s"
| "unless_stuck P (Stuck s) = True"

named_theorems outcome_intros \<open>how \<open>unless_stuck\<close> passes through the control operators\<close>

lemma unless_stuck_andthen [outcome_intros]:
  "unless_stuck P r \<Longrightarrow> (\<And>s. r = Done s \<Longrightarrow> P s \<Longrightarrow> unless_stuck Q (f s)) \<Longrightarrow>
   (\<And>s. P s \<Longrightarrow> Q s) \<Longrightarrow> unless_stuck Q (andthen r f)"
  by (cases r) auto

lemma unless_stuck_catch [outcome_intros]:
  "unless_stuck P r \<Longrightarrow> (\<And>s. P s \<Longrightarrow> unless_stuck Q (h s)) \<Longrightarrow>
   (\<And>s. P s \<Longrightarrow> Q s) \<Longrightarrow> unless_stuck Q (catch_exn r h)"
  by (cases r) auto

lemma unless_stuck_on_exit [outcome_intros]:
  "unless_stuck (\<lambda>s. P (f s)) r \<Longrightarrow> unless_stuck P (on_exit f r)"
  by (cases r) auto

lemma unless_stuck_on_part [outcome_intros]:
  "unless_stuck (\<lambda>p. P (put p)) r \<Longrightarrow> unless_stuck P (on_part put r)"
  by (cases r) auto

lemma unless_stuck_mono:
  "unless_stuck P r \<Longrightarrow> (\<And>s. P s \<Longrightarrow> Q s) \<Longrightarrow> unless_stuck Q r"
  by (cases r) auto

lemma andthen_Done [simp]: "andthen r Done = r"
  by (cases r) auto

lemma andthen_assoc: "andthen (andthen r f) g = andthen r (\<lambda>s. andthen (f s) g)"
  by (cases r) auto

section \<open>Octets of machine words\<close>

text \<open>
  The code takes a word apart with \<open>(w >> k) & 0xFF\<close> and puts it together again with
  \<open>(b0 << k) | ...\<close>. These lemmas say that the second undoes the first, bit by bit.
\<close>

lemma mask_255: "(255 :: 'a::len word) = mask 8"
  by (simp add: mask_eq_exp_minus_1)
lemma octet_bit: "bit (ucast (w AND 0xFF) :: byte) n \<longleftrightarrow> n < 8 \<and> bit (w::'a::len word) n"
  by (auto simp: mask_255 bit_simps dest: bit_imp_le_length)
lemma octet_at_bit:
  "bit (push_bit k (ucast (ucast (drop_bit k w AND 0xFF) :: byte)) :: 'a::len word) n \<longleftrightarrow>
   k \<le> n \<and> n < k + 8 \<and> bit (w :: 'a word) n"
  by (auto simp: mask_255 octet_bit bit_simps dest: bit_imp_le_length)
lemma octet_at_bit0:
  "bit (ucast (ucast (w AND 0xFF) :: byte) :: 'a::len word) n \<longleftrightarrow>
   n < 8 \<and> bit (w :: 'a word) n"
  by (auto simp: mask_255 octet_bit bit_simps dest: bit_imp_le_length)
lemma small_word_bit: "n < 2 ^ k \<Longrightarrow> bit (word_of_nat n :: 'a::len word) i \<Longrightarrow> i < k"
  apply (simp add: bit_simps)
  by (metis bit_take_bit_iff take_bit_nat_eq_self)

lemma octets_u16:
  assumes "\<And>i. bit (w :: u64) i \<Longrightarrow> i < 16"
  shows "push_bit 8 (ucast (ucast (drop_bit 8 w AND 0xFF) :: byte)) OR
    ucast (ucast (w AND 0xFF) :: byte) = w"
  by (rule bit_word_eqI) (use assms in \<open>auto simp: bit_or_iff octet_at_bit octet_at_bit0\<close>)

lemma bit_0x80: "bit (0x80 :: byte) i \<longleftrightarrow> i = 7"
proof -
  have "bit (2 ^ 7 :: byte) i \<longleftrightarrow> i = 7" unfolding bit_exp_iff by auto
  then show ?thesis by simp
qed

lemma flag_byte: assumes "\<And>i. bit (w :: byte) i \<Longrightarrow> i < 7"
  shows "((if m then 0x80 else 0x00) OR w) AND 0x80 \<noteq> 0 \<longleftrightarrow> m" (is ?A)
   and "((if m then 0x80 else 0x00) OR w) AND 0x7F = w" (is ?B)
proof -
  have m7: "(0x7F :: byte) = mask 7" by (simp add: mask_eq_exp_minus_1)
  have f: "w AND 0x80 = 0"
    by (rule bit_word_eqI) (use assms in \<open>auto simp: bit_and_iff bit_0x80 simp del: bit_numeral_word_iff\<close>)
  have g: "w AND 0x7F = w"
    unfolding m7 by (rule bit_word_eqI) (use assms in \<open>auto simp: bit_simps\<close>)
  show ?A using f by (auto simp: bit.conj_disj_distrib2 bit.conj_disj_distrib)
  show ?B using g by (auto simp: bit.conj_disj_distrib2)
qed

lemma octets_u32:
  "push_bit 24 (ucast (ucast (drop_bit 24 (m::u32) AND 0xFF) :: byte)) OR
   push_bit 16 (ucast (ucast (drop_bit 16 m AND 0xFF) :: byte)) OR
   push_bit 8 (ucast (ucast (drop_bit 8 m AND 0xFF) :: byte)) OR
   ucast (ucast (m AND 0xFF) :: byte) = m"
  by (rule bit_word_eqI) (auto simp: bit_or_iff octet_at_bit octet_at_bit0)

lemma octets_u64:
  "push_bit 56 (ucast (ucast (drop_bit 56 (m::u64) AND 0xFF) :: byte)) OR
   push_bit 48 (ucast (ucast (drop_bit 48 m AND 0xFF) :: byte)) OR
   push_bit 40 (ucast (ucast (drop_bit 40 m AND 0xFF) :: byte)) OR
   push_bit 32 (ucast (ucast (drop_bit 32 m AND 0xFF) :: byte)) OR
   push_bit 24 (ucast (ucast (drop_bit 24 m AND 0xFF) :: byte)) OR
   push_bit 16 (ucast (ucast (drop_bit 16 m AND 0xFF) :: byte)) OR
   push_bit 8 (ucast (ucast (drop_bit 8 m AND 0xFF) :: byte)) OR
   ucast (ucast (m AND 0xFF) :: byte) = m"
  by (rule bit_word_eqI) (auto simp: bit_or_iff octet_at_bit octet_at_bit0)

text \<open>
  Big-endian numbers: \<open>be_nat\<close> is the mathematical value of a byte list, most significant
  byte first, and \<open>be_word\<close> the same by shifting and or-ing in a word.
\<close>

definition be_nat :: "byte list \<Rightarrow> nat" where
  "be_nat bs = foldl (\<lambda>acc b. acc * 256 + unat b) 0 bs"

definition be_word :: "byte list \<Rightarrow> 'a::len word" where
  "be_word bs = foldl (\<lambda>acc b. push_bit 8 acc OR ucast b) 0 bs"

lemma be_word_snoc: "be_word (bs @ [b]) = (be_word bs * 256 + ucast b :: 'a::len word)"
proof -
  have "push_bit 8 w OR ucast b = push_bit 8 w + (ucast b :: 'a word)" for w
    by (rule disjunctive_add [symmetric]) (auto simp: bit_simps dest: bit_imp_le_length)
  then show ?thesis by (simp add: be_word_def push_bit_eq_mult)
qed

lemma be_word_eq: "be_word bs = word_of_nat (be_nat bs)"
proof (induction bs rule: rev_induct)
  case Nil
  then show ?case by (simp add: be_word_def be_nat_def)
next
  case (snoc b bs)
  then show ?case by (simp add: be_word_snoc) (simp add: be_nat_def)
qed

lemma be_nat_bound: "be_nat bs < 256 ^ length bs"
proof (induction bs rule: rev_induct)
  case Nil
  then show ?case by (simp add: be_nat_def)
next
  case (snoc b bs)
  have "unat b < 256" using unsigned_less [of b] by simp
  with snoc show ?case by (simp add: be_nat_def)
qed

lemma be_nat_bound8: "length bs \<le> 8 \<Longrightarrow> be_nat bs < 2 ^ 64"
  using be_nat_bound [of bs] power_increasing [of "length bs" 8 "256::nat"] by simp

lemma be_word_2: "be_word [a, b] = push_bit 8 (ucast a) OR ucast b"
  by (simp add: be_word_def)

lemma be_word_4:
  "be_word [a, b, c, d] = push_bit 24 (ucast a) OR push_bit 16 (ucast b) OR
     push_bit 8 (ucast c) OR ucast d"
  by (simp add: be_word_def push_bit_or or.assoc)

lemma be_word_8:
  "be_word [a, b, c, d, e, f, g, h] = push_bit 56 (ucast a) OR push_bit 48 (ucast b) OR
     push_bit 40 (ucast c) OR push_bit 32 (ucast d) OR push_bit 24 (ucast e) OR
     push_bit 16 (ucast f) OR push_bit 8 (ucast g) OR ucast h"
  by (simp add: be_word_def push_bit_or or.assoc)

lemma and_0x80: "(b :: byte) AND 0x80 \<noteq> 0 \<longleftrightarrow> bit b 7"
proof -
  have "b AND 0x80 = (if bit b 7 then 0x80 else 0)"
    by (rule bit_word_eqI) (auto simp: bit_and_iff bit_0x80 simp del: bit_numeral_word_iff)
  then show ?thesis by simp
qed

lemma take_drop_nth: "k + n \<le> length xs \<Longrightarrow> take n (drop k xs) = map (\<lambda>i. xs ! (k + i)) [0..<n]"
  by (auto intro!: nth_equalityI)

lemma take_drop_octets:
  "k + 2 \<le> length xs \<Longrightarrow> take 2 (drop k xs) = [xs ! k, xs ! (k + 1)]"
  "k + 4 \<le> length xs \<Longrightarrow> take 4 (drop k xs) = [xs ! k, xs ! (k + 1), xs ! (k + 2), xs ! (k + 3)]"
  "k + 8 \<le> length xs \<Longrightarrow> take 8 (drop k xs) = [xs ! k, xs ! (k + 1), xs ! (k + 2), xs ! (k + 3),
     xs ! (k + 4), xs ! (k + 5), xs ! (k + 6), xs ! (k + 7)]"
  by (simp_all add: take_drop_nth) (simp_all add: eval_nat_numeral)

end
