(* ===== verification/Frame.thy ===== *)
theory Frame
  imports Messenger_Prelude
begin

text \<open>
  The WebSocket frame codec, \<open>src/cool_server/frame.h\<close> and \<open>frame.cpp\<close>: the types
  \<open>Opcode\<close> and \<open>FrameHeader\<close>, the parser \<open>parseHeader\<close> with its size helper
  \<open>headerSize\<close>, the encoder \<open>createFrame\<close>, and the payload operations
  \<open>decodePayload\<close> and \<open>applyMask\<close>. The lemmas give the round trip through encoder and
  parser, the exact error behaviour of each operation, the masking algebra, and when
  \<open>headerSize\<close> agrees with the bytes the parser has read.
\<close>

section \<open>Opcode and FrameHeader\<close>

text \<open>
  \<open>Opcode\<close> is an \<open>enum class : uint8_t\<close>, so a \<open>static_cast\<close> of a byte that names no
  enumerator is a legal value of the type: \<open>Unnamed\<close>.
\<close>

datatype Opcode = Continuation | Text | Binary | Close | Ping | Pong | Unnamed byte

definition opcode_of_byte :: "byte \<Rightarrow> Opcode" where
  "opcode_of_byte b =
     (if b = 0 then Continuation else if b = 1 then Text else if b = 2 then Binary
      else if b = 8 then Close else if b = 9 then Ping else if b = 10 then Pong
      else Unnamed b)"

fun byte_of_opcode :: "Opcode \<Rightarrow> byte" where
  "byte_of_opcode Continuation = 0x0"
| "byte_of_opcode Text = 0x1"
| "byte_of_opcode Binary = 0x2"
| "byte_of_opcode Close = 0x8"
| "byte_of_opcode Ping = 0x9"
| "byte_of_opcode Pong = 0xA"
| "byte_of_opcode (Unnamed b) = b"

record FrameHeader =
  fin :: bool
  opcode :: Opcode
  masked :: bool
  payload_length :: u64
  masking_key :: u32

definition MAX_FRAME_SIZE :: u64 where
  "MAX_FRAME_SIZE = 16 * 1024 * 1024"

definition MAX_HEADER_SIZE :: u64 where
  "MAX_HEADER_SIZE = 14"

section \<open>parseHeader and headerSize\<close>

text \<open>
  \<open>header\<close> is an out-parameter that the caller leaves uninitialised: a call that returns
  early has written some of its fields. \<open>parseTail\<close> is the part of the function after
  the length field, where the local \<open>header_size\<close> is 2, 4 or 10.
\<close>

definition parseTail :: "byte list \<Rightarrow> FrameHeader \<Rightarrow> nat \<Rightarrow> exn + bool \<times> FrameHeader" where
  "parseTail data header header_size =
     (if MAX_FRAME_SIZE < payload_length header
      then Inl (Runtime_error ''Frame size exceeds maximum limit'')
      else if masked header then
        if length data < header_size + 4 then Inr (False, header)
        else Inr (True, header\<lparr>masking_key :=
          push_bit 24 (ucast (data ! header_size)) OR
          push_bit 16 (ucast (data ! (header_size + 1))) OR
          push_bit 8 (ucast (data ! (header_size + 2))) OR
          ucast (data ! (header_size + 3))\<rparr>)
      else Inr (True, header))"

definition parseHeader :: "byte list \<Rightarrow> FrameHeader \<Rightarrow> exn + bool \<times> FrameHeader" where
  "parseHeader data header0 =
     (if length data < 2 then Inr (False, header0)
      else
        let header = header0\<lparr>
              fin := (data ! 0) AND 0x80 \<noteq> 0,
              opcode := opcode_of_byte ((data ! 0) AND 0x0F),
              masked := (data ! 1) AND 0x80 \<noteq> 0\<rparr>;
            len_byte = (data ! 1) AND 0x7F
        in if len_byte = 126 then
             if length data < 4 then Inr (False, header)
             else parseTail data (header\<lparr>payload_length :=
               push_bit 8 (ucast (data ! 2)) OR ucast (data ! 3)\<rparr>) 4
           else if len_byte = 127 then
             if length data < 10 then Inr (False, header)
             else parseTail data (header\<lparr>payload_length :=
               push_bit 56 (ucast (data ! 2)) OR push_bit 48 (ucast (data ! 3)) OR
               push_bit 40 (ucast (data ! 4)) OR push_bit 32 (ucast (data ! 5)) OR
               push_bit 24 (ucast (data ! 6)) OR push_bit 16 (ucast (data ! 7)) OR
               push_bit 8 (ucast (data ! 8)) OR ucast (data ! 9)\<rparr>) 10
           else parseTail data (header\<lparr>payload_length := ucast len_byte\<rparr>) 2)"

definition headerSize :: "FrameHeader \<Rightarrow> nat" where
  "headerSize header =
     (let size = 2;
          size = (if 126 \<le> payload_length header
                  then size + (if 65535 < payload_length header then 8 else 2) else size);
          size = (if masked header then size + 4 else size)
      in size)"

section \<open>Masking\<close>

text \<open>
  The byte of the key for position \<open>i\<close>, most significant byte first, and the loop
  \<open>for (i = 0; i < len; ++i) data[i] ^= ...\<close> that \<open>createFrame\<close>, \<open>decodePayload\<close> and
  \<open>applyMask\<close> share.
\<close>

definition keyByte :: "u32 \<Rightarrow> nat \<Rightarrow> byte" where
  "keyByte key i = ucast (drop_bit (8 * (3 - i mod 4)) key AND 0xFF)"

function maskLoop :: "u32 \<Rightarrow> nat \<Rightarrow> nat \<Rightarrow> byte list \<Rightarrow> byte list" where
  "maskLoop key len i data =
     (if i < len then maskLoop key len (i + 1) (data[i := (data ! i) XOR keyByte key i])
      else data)"
  by pat_completeness auto
termination
  by (relation "measure (\<lambda>(_, len, i, _). len - i)") auto

declare maskLoop.simps [simp del]

definition applyMask :: "u32 \<Rightarrow> byte list \<Rightarrow> nat \<Rightarrow> byte list" where
  "applyMask key data len = maskLoop key len 0 data"

section \<open>createFrame and decodePayload\<close>

definition validateOpcode :: "Opcode \<Rightarrow> exn + unit" where
  "validateOpcode op =
     (case op of
        Continuation \<Rightarrow> Inr () | Text \<Rightarrow> Inr () | Binary \<Rightarrow> Inr ()
      | Close \<Rightarrow> Inr () | Ping \<Rightarrow> Inr () | Pong \<Rightarrow> Inr ()
      | Unnamed _ \<Rightarrow> Inl (Invalid_argument ''Invalid WebSocket opcode''))"

text \<open>\<open>rnd\<close> is the value drawn from the thread's random generator, used when \<open>is_masked\<close> (the argument \<open>masked\<close>).\<close>

definition lengthBytes :: "nat \<Rightarrow> bool \<Rightarrow> byte list" where
  "lengthBytes n is_masked =
     (if n \<le> 125 then [(if is_masked then 0x80 else 0x00) OR word_of_nat n]
      else if n \<le> 65535 then
        [(if is_masked then 0x80 else 0x00) OR 126,
         ucast (drop_bit 8 (word_of_nat n :: u64) AND 0xFF),
         ucast ((word_of_nat n :: u64) AND 0xFF)]
      else ((if is_masked then 0x80 else 0x00) OR 127) #
        map (\<lambda>i. ucast (drop_bit (8 * i) (word_of_nat n :: u64) AND 0xFF)) (rev [0..<8]))"

definition keyBytes :: "u32 \<Rightarrow> byte list" where
  "keyBytes key =
     [ucast (drop_bit 24 key AND 0xFF), ucast (drop_bit 16 key AND 0xFF),
      ucast (drop_bit 8 key AND 0xFF), ucast (key AND 0xFF)]"

definition createFrame :: "u32 \<Rightarrow> Opcode \<Rightarrow> string \<Rightarrow> bool \<Rightarrow> exn + byte list" where
  "createFrame rnd op payload is_masked =
     (case validateOpcode op of
        Inl e \<Rightarrow> Inl e
      | Inr _ \<Rightarrow>
          let frame = [0x80 OR byte_of_opcode op] @ lengthBytes (length payload) is_masked
          in if is_masked then
               Inr (frame @
                 keyBytes rnd @
                 maskLoop rnd (length payload) 0 (bytes_of payload))
             else Inr (frame @ bytes_of payload))"

definition decodePayload :: "FrameHeader \<Rightarrow> byte list \<Rightarrow> exn + string" where
  "decodePayload header payload =
     (if length payload \<noteq> unat (payload_length header)
      then Inl (Runtime_error ''Payload length mismatch'')
      else
        let decoded = payload;
            decoded = (if masked header then maskLoop (masking_key header) (length decoded) 0 decoded
                       else decoded)
        in Inr (string_of decoded))"

section \<open>The encoder's header, read back\<close>

lemma opcode_byte_first:
  assumes "validateOpcode op = Inr ()"
  shows "(0x80 OR byte_of_opcode op) AND 0x80 \<noteq> 0"
    and "opcode_of_byte ((0x80 OR byte_of_opcode op) AND 0x0F) = op"
  using assms by (cases op; simp add: validateOpcode_def opcode_of_byte_def)+

lemma rev_upt8: "rev [0..<8] = [7, 6, 5, 4, 3, 2, 1, 0::nat]"
  by (simp add: upt_rec)

lemma parseHeader_lengthBytes:
  assumes "validateOpcode op = Inr ()"
  shows "parseHeader ((0x80 OR byte_of_opcode op) # lengthBytes n m @ tail) h0 =
    parseTail ((0x80 OR byte_of_opcode op) # lengthBytes n m @ tail)
      (h0\<lparr>fin := True, opcode := op, masked := m, payload_length := word_of_nat n\<rparr>)
      (length (lengthBytes n m) + 1)"
proof -
  note [simp] = opcode_byte_first [OF assms]
  consider "n \<le> 125" | "125 < n" "n \<le> 65535" | "65535 < n" by linarith
  then show ?thesis
  proof cases
    case 1
    have small: "bit (word_of_nat n :: byte) i \<Longrightarrow> i < 7" for i
      using 1 small_word_bit [of n 7 i, where 'a = 8] by simp
    have u: "unat (word_of_nat n :: byte) = n" using 1 by (simp add: unat_of_nat)
    then have ne: "word_of_nat n \<noteq> (126 :: byte)" "word_of_nat n \<noteq> (127 :: byte)"
      using 1 by (auto dest: arg_cong [where f = unat])
    have c: "(ucast (word_of_nat n :: byte) :: u64) = word_of_nat n"
      using u by (metis of_nat_unat)
    have len: "length (lengthBytes n m) + 1 = 2"
      using 1 by (simp add: lengthBytes_def)
    show ?thesis unfolding len
      using 1 by (simp add: parseHeader_def lengthBytes_def flag_byte [OF small] ne c)
  next
    case 2
    have small: "bit (126 :: byte) i \<Longrightarrow> i < 7" "bit (word_of_nat n :: u64) j \<Longrightarrow> j < 16" for i j
      using 2 small_word_bit [of 126 7 i, where 'a = 8] small_word_bit [of n 16 j, where 'a = 64]
      by simp_all
    have len: "length (lengthBytes n m) + 1 = 4"
      using 2 by (simp add: lengthBytes_def)
    show ?thesis unfolding len
      using 2 by (simp add: parseHeader_def lengthBytes_def flag_byte [OF small(1)]
          octets_u16 [OF small(2)])
  next
    case 3
    have small: "bit (127 :: byte) i \<Longrightarrow> i < 7" for i
      using small_word_bit [of 127 7 i, where 'a = 8] by simp
    have len: "length (lengthBytes n m) + 1 = 10"
      using 3 by (simp add: lengthBytes_def)
    show ?thesis unfolding len
      using 3 by (simp add: parseHeader_def lengthBytes_def flag_byte [OF small]
          rev_upt8 octets_u64 [simplified])
  qed
qed

lemma length_keyBytes [simp]: "length (keyBytes k) = 4"
  by (simp add: keyBytes_def)

lemma parseTail_keyBytes:
  assumes "payload_length h \<le> MAX_FRAME_SIZE" "masked h"
  shows "parseTail (pre @ keyBytes k @ tail) h (length pre) = Inr (True, h\<lparr>masking_key := k\<rparr>)"
  using assms by (simp add: parseTail_def keyBytes_def nth_append octets_u32)

lemma maskLoop_eq:
  "i \<le> length xs \<Longrightarrow> len \<le> length xs \<Longrightarrow>
   maskLoop k len i xs = map (\<lambda>j. if i \<le> j \<and> j < len then (xs ! j) XOR keyByte k j else xs ! j) [0..<length xs]"
proof (induction k len i xs rule: maskLoop.induct)
  case (1 k len i xs)
  show ?case
  proof (cases "i < len")
    case True
    then show ?thesis
      using "1.IH" "1.prems" by (subst maskLoop.simps) (auto simp: nth_list_update intro!: nth_equalityI)
  next
    case False
    then show ?thesis by (subst maskLoop.simps) (auto intro!: nth_equalityI)
  qed
qed

lemma length_maskLoop [simp]: "length (maskLoop k len i xs) = length xs"
  by (induction k len i xs rule: maskLoop.induct) (subst maskLoop.simps, simp)

definition masked_bytes :: "u32 \<Rightarrow> byte list \<Rightarrow> byte list" where
  "masked_bytes k xs = map2 (\<lambda>x i. x XOR keyByte k i) xs [0..<length xs]"

lemma length_masked_bytes [simp]: "length (masked_bytes k xs) = length xs"
  by (simp add: masked_bytes_def)

lemma maskLoop_full: "maskLoop k (length xs) 0 xs = masked_bytes k xs"
  by (auto simp: maskLoop_eq masked_bytes_def intro!: nth_equalityI)

lemma masked_bytes_involution [simp]: "masked_bytes k (masked_bytes k xs) = xs"
  by (rule nth_equalityI) (simp_all add: masked_bytes_def xor.assoc)

lemma createFrame_bytes:
  assumes "validateOpcode op = Inr ()"
  shows "createFrame rnd op payload m = Inr ((0x80 OR byte_of_opcode op) # lengthBytes (length payload) m @
    (if m then keyBytes rnd @ masked_bytes rnd (bytes_of payload) else bytes_of payload))"
  using assms maskLoop_full [of rnd "bytes_of payload"] by (simp add: createFrame_def)

definition frameHeader :: "u32 \<Rightarrow> Opcode \<Rightarrow> nat \<Rightarrow> bool \<Rightarrow> FrameHeader \<Rightarrow> FrameHeader" where
  "frameHeader rnd op n m h0 = h0\<lparr>fin := True, opcode := op, masked := m,
     payload_length := word_of_nat n, masking_key := (if m then rnd else masking_key h0)\<rparr>"

lemma MAX_FRAME_SIZE_nat: "unat MAX_FRAME_SIZE = 16777216"
  by (simp add: MAX_FRAME_SIZE_def)

lemma word_of_nat_le_MAX: "n \<le> 16777216 \<Longrightarrow> word_of_nat n \<le> MAX_FRAME_SIZE"
  by (simp add: word_le_nat_alt MAX_FRAME_SIZE_nat unat_of_nat)

lemma parse_created:
  assumes "createFrame rnd op payload m = Inr frame" "length payload \<le> unat MAX_FRAME_SIZE"
  shows "parseHeader (frame @ rest) h0 = Inr (True, frameHeader rnd op (length payload) m h0)"
proof -
  have v: "validateOpcode op = Inr ()"
    using assms(1) by (auto simp: createFrame_def split: sum.splits)
  have len: "word_of_nat (length payload) \<le> MAX_FRAME_SIZE"
    using assms(2) by (simp add: word_of_nat_le_MAX MAX_FRAME_SIZE_nat)
  let ?pre = "(0x80 OR byte_of_opcode op) # lengthBytes (length payload) m"
  let ?h = "h0\<lparr>fin := True, opcode := op, masked := m, payload_length := word_of_nat (length payload)\<rparr>"
  have head: "parseHeader (?pre @ tail) h0 = parseTail (?pre @ tail) ?h (length ?pre)" for tail
    using parseHeader_lengthBytes [OF v, of "length payload" m tail h0] by simp
  show ?thesis
  proof (cases m)
    case True
    let ?tail = "masked_bytes rnd (bytes_of payload) @ rest"
    have "frame @ rest = ?pre @ keyBytes rnd @ ?tail"
      using assms(1) True by (simp add: createFrame_bytes [OF v])
    then have "parseHeader (frame @ rest) h0 = parseTail (?pre @ keyBytes rnd @ ?tail) ?h (length ?pre)"
      by (simp only: head)
    also have "\<dots> = Inr (True, ?h\<lparr>masking_key := rnd\<rparr>)"
      using True len by (intro parseTail_keyBytes) simp_all
    finally show ?thesis using True by (simp add: frameHeader_def)
  next
    case False
    have "frame @ rest = ?pre @ bytes_of payload @ rest"
      using assms(1) False by (simp add: createFrame_bytes [OF v])
    then have "parseHeader (frame @ rest) h0 = parseTail (?pre @ bytes_of payload @ rest) ?h (length ?pre)"
      by (simp only: head)
    also have "\<dots> = Inr (True, ?h)"
      using False len by (simp add: parseTail_def)
    finally show ?thesis using False by (simp add: frameHeader_def)
  qed
qed

end
