(* ===== verification/Frame_Spec.thy ===== *)
theory Frame_Spec
  imports Frame
begin

text \<open>
  What the frame codec promises. The first part is a reference reading of a frame header
  (RFC 6455, section 5.2) that looks at the bytes directly: \<open>lengthFieldSize\<close>,
  \<open>wireLength\<close>, \<open>wireHeaderSize\<close>, \<open>wireHeader\<close> and the verdict \<open>headerSpec\<close>;
  \<open>parseHeader\<close> is proved equal to it, and stable when more bytes arrive. The second part
  compares \<open>headerSize\<close> with the header the parser has read. The rest are the round trip
  and the masking laws.
\<close>

section \<open>A reference reading of the header\<close>

definition lengthFieldSize :: "byte list \<Rightarrow> nat" where
  "lengthFieldSize data =
     (if (data ! 1) AND 0x7F = 126 then 2 else if (data ! 1) AND 0x7F = 127 then 8 else 0)"

definition wireLength :: "byte list \<Rightarrow> nat" where
  "wireLength data =
     (if lengthFieldSize data = 0 then unat ((data ! 1) AND 0x7F)
      else be_nat (take (lengthFieldSize data) (drop 2 data)))"

definition wireMasked :: "byte list \<Rightarrow> bool" where
  "wireMasked data = bit (data ! 1) 7"

definition wireHeaderSize :: "byte list \<Rightarrow> nat" where
  "wireHeaderSize data = 2 + lengthFieldSize data + (if wireMasked data then 4 else 0)"

definition wireHeader :: "byte list \<Rightarrow> FrameHeader \<Rightarrow> FrameHeader" where
  "wireHeader data h0 = h0\<lparr>
     fin := bit (data ! 0) 7,
     opcode := opcode_of_byte ((data ! 0) AND 0x0F),
     masked := wireMasked data,
     payload_length := word_of_nat (wireLength data),
     masking_key := (if wireMasked data
       then word_of_nat (be_nat (take 4 (drop (2 + lengthFieldSize data) data))) else masking_key h0)\<rparr>"

lemma wireLength_bound: "wireLength data < 2 ^ 64"
proof -
  have "unat ((data ! 1) AND 0x7F) < 2 ^ 64"
    using unsigned_less [of "(data ! 1) AND 0x7F", where 'a = nat] by simp
  then show ?thesis
    using be_nat_bound8 [of "take 2 (drop 2 data)"] be_nat_bound8 [of "take 8 (drop 2 data)"]
    by (simp add: wireLength_def lengthFieldSize_def)
qed

lemma parseTail_wire:
  "parseTail data h hs =
     (if unat MAX_FRAME_SIZE < unat (payload_length h)
      then Inl (Runtime_error ''Frame size exceeds maximum limit'')
      else if masked h \<and> length data < hs + 4 then Inr (False, h)
      else Inr (True, if masked h then h\<lparr>masking_key := word_of_nat (be_nat (take 4 (drop hs data)))\<rparr> else h))"
  by (auto simp: parseTail_def word_less_nat_alt take_drop_octets be_word_4 simp flip: be_word_eq)

lemma parseHeader_wire:
  assumes "2 + lengthFieldSize data \<le> length data"
  shows "parseHeader data h0 =
    parseTail data (h0\<lparr>fin := bit (data ! 0) 7, opcode := opcode_of_byte ((data ! 0) AND 0x0F),
      masked := wireMasked data, payload_length := word_of_nat (wireLength data)\<rparr>) (2 + lengthFieldSize data)"
proof -
  consider "(data ! 1) AND 0x7F = 126" | "(data ! 1) AND 0x7F = 127"
    | "(data ! 1) AND 0x7F \<noteq> 126" "(data ! 1) AND 0x7F \<noteq> 127" by blast
  then show ?thesis
  proof cases
    case 1
    then show ?thesis using assms
      by (simp add: parseHeader_def and_0x80 wireMasked_def wireLength_def lengthFieldSize_def
          take_drop_octets be_word_2 flip: be_word_eq)
  next
    case 2
    then show ?thesis using assms
      by (simp add: parseHeader_def and_0x80 wireMasked_def wireLength_def lengthFieldSize_def
          take_drop_octets be_word_8 flip: be_word_eq)
  next
    case 3
    then show ?thesis using assms
      by (simp add: parseHeader_def and_0x80 wireMasked_def wireLength_def lengthFieldSize_def)
  qed
qed

datatype header_verdict = Incomplete | Rejected exn | Complete FrameHeader

fun verdict :: "exn + bool \<times> FrameHeader \<Rightarrow> header_verdict" where
  "verdict (Inl e) = Rejected e"
| "verdict (Inr (False, h)) = Incomplete"
| "verdict (Inr (True, h)) = Complete h"

definition headerSpec :: "byte list \<Rightarrow> FrameHeader \<Rightarrow> header_verdict" where
  "headerSpec data h0 =
     (if length data < 2 \<or> length data < 2 + lengthFieldSize data then Incomplete
      else if unat MAX_FRAME_SIZE < wireLength data
        then Rejected (Runtime_error ''Frame size exceeds maximum limit'')
      else if length data < wireHeaderSize data then Incomplete
      else Complete (wireHeader data h0))"

lemma unat_wireLength: "unat (word_of_nat (wireLength data) :: u64) = wireLength data"
  using wireLength_bound [of data] by (simp add: unat_of_nat)

lemma headerSpec_correct: "verdict (parseHeader data h0) = headerSpec data h0"
proof (cases "length data < 2 \<or> length data < 2 + lengthFieldSize data")
  case True
  then show ?thesis
    by (auto simp: parseHeader_def headerSpec_def lengthFieldSize_def split: if_splits)
next
  case False
  then have "2 + lengthFieldSize data \<le> length data" by simp
  from parseHeader_wire [OF this, of h0] False show ?thesis
    by (auto simp: parseTail_wire headerSpec_def unat_wireLength wireHeaderSize_def wireHeader_def)
qed

lemma verdict_iff [simp]:
  "verdict r = Complete h \<longleftrightarrow> r = Inr (True, h)"
  "verdict r = Rejected e \<longleftrightarrow> r = Inl e"
  "verdict r = Incomplete \<longleftrightarrow> (\<exists>h. r = Inr (False, h))"
  by (cases r rule: verdict.cases; auto)+

lemma parseHeader_iff:
  "parseHeader data h0 = Inr (True, h) \<longleftrightarrow> headerSpec data h0 = Complete h"
  "parseHeader data h0 = Inl e \<longleftrightarrow> headerSpec data h0 = Rejected e"
  by (simp_all flip: headerSpec_correct)

lemma wire_append:
  assumes "2 \<le> length data"
  shows "lengthFieldSize (data @ later) = lengthFieldSize data"
    and "wireMasked (data @ later) = wireMasked data"
    and "wireHeaderSize (data @ later) = wireHeaderSize data"
    and "2 + lengthFieldSize data \<le> length data \<Longrightarrow> wireLength (data @ later) = wireLength data"
    and "wireHeaderSize data \<le> length data \<Longrightarrow> wireHeader (data @ later) h0 = wireHeader data h0"
proof -
  show l: "lengthFieldSize (data @ later) = lengthFieldSize data"
    and m: "wireMasked (data @ later) = wireMasked data"
    using assms by (simp_all add: lengthFieldSize_def wireMasked_def nth_append)
  then show "wireHeaderSize (data @ later) = wireHeaderSize data" by (simp add: wireHeaderSize_def)
  show wl: "wireLength (data @ later) = wireLength data" if "2 + lengthFieldSize data \<le> length data"
    using that assms by (simp add: wireLength_def l nth_append)
  show "wireHeader (data @ later) h0 = wireHeader data h0" if "wireHeaderSize data \<le> length data"
  proof -
    have "2 + lengthFieldSize data \<le> length data" using that by (simp add: wireHeaderSize_def)
    then show ?thesis
      using that assms by (auto simp: wireHeader_def l m wl nth_append wireHeaderSize_def)
  qed
qed

lemma headerSpec_append:
  "headerSpec data h0 = Complete h \<Longrightarrow> headerSpec (data @ later) h0 = Complete h"
  "headerSpec data h0 = Rejected e \<Longrightarrow> headerSpec (data @ later) h0 = Rejected e"
  by (auto simp: headerSpec_def wire_append split: if_splits)

lemma parseHeader_append:
  "parseHeader data h0 = Inr (True, h) \<Longrightarrow> parseHeader (data @ later) h0 = Inr (True, h)"
  "parseHeader data h0 = Inl e \<Longrightarrow> parseHeader (data @ later) h0 = Inl e"
  by (simp_all add: parseHeader_iff headerSpec_append)

definition minimalLength :: "byte list \<Rightarrow> bool" where
  "minimalLength data =
     (if lengthFieldSize data = 2 then 126 \<le> wireLength data
      else if lengthFieldSize data = 8 then 65536 \<le> wireLength data else True)"

lemma wireLength_ranges:
  "lengthFieldSize data = 0 \<Longrightarrow> wireLength data < 126"
  "lengthFieldSize data = 2 \<Longrightarrow> wireLength data < 65536"
proof -
  let ?b = "(data ! 1) AND 0x7F"
  have "?b = take_bit 7 (data ! 1)" by (simp add: take_bit_eq_mask mask_eq_exp_minus_1)
  then have "unat ?b < 128"
    using take_bit_nat_less_exp [of 7 "unat (data ! 1)"] by (simp add: unsigned_take_bit_eq)
  moreover have "unat ?b = 126 \<Longrightarrow> ?b = 126" "unat ?b = 127 \<Longrightarrow> ?b = 127"
    by (metis of_nat_numeral of_nat_unat ucast_id)+
  ultimately have small: "?b \<noteq> 126 \<Longrightarrow> ?b \<noteq> 127 \<Longrightarrow> unat ?b < 126" by linarith
  show "wireLength data < 126" if "lengthFieldSize data = 0"
    using that small by (simp add: wireLength_def lengthFieldSize_def split: if_splits)
  have "256 ^ min (length data - 2) 2 \<le> (256 ^ 2 :: nat)"
    by (rule power_increasing) simp_all
  then show "wireLength data < 65536" if "lengthFieldSize data = 2"
    using that be_nat_bound [of "take 2 (drop 2 data)"] by (simp add: wireLength_def)
qed

lemma frameHeader_simps [simp]:
  "fin (frameHeader rnd op n m h0)" "opcode (frameHeader rnd op n m h0) = op"
  "masked (frameHeader rnd op n m h0) = m"
  "payload_length (frameHeader rnd op n m h0) = word_of_nat n"
  "m \<Longrightarrow> masking_key (frameHeader rnd op n m h0) = rnd"
  by (simp_all add: frameHeader_def)

definition headerBytes :: "u32 \<Rightarrow> Opcode \<Rightarrow> nat \<Rightarrow> bool \<Rightarrow> byte list" where
  "headerBytes rnd op n m =
     (0x80 OR byte_of_opcode op) # lengthBytes n m @ (if m then keyBytes rnd else [])"

lemma headerSize_frameHeader:
  assumes "n < 2 ^ 64"
  shows "headerSize (frameHeader rnd op n m h0) = length (headerBytes rnd op n m)"
proof -
  have "unat (word_of_nat n :: u64) = n" using assms by (simp add: unat_of_nat)
  then show ?thesis
    by (simp add: headerSize_def headerBytes_def lengthBytes_def word_le_nat_alt word_less_nat_alt)
qed

lemma createFrame_valid: "createFrame rnd op payload m = Inr frame \<Longrightarrow> validateOpcode op = Inr ()"
  by (auto simp: createFrame_def split: sum.splits)

lemma createFrame_split:
  "createFrame rnd op payload m = Inr frame \<Longrightarrow>
   frame = headerBytes rnd op (length payload) m @
     (if m then masked_bytes rnd (bytes_of payload) else bytes_of payload)"
  using createFrame_bytes [OF createFrame_valid, of rnd op payload m frame]
  by (auto simp: headerBytes_def)

lemma decode_masked:
  "length payload = unat (payload_length h) \<Longrightarrow>
   decodePayload h (if masked h then masked_bytes (masking_key h) (bytes_of payload) else bytes_of payload) = Inr payload"
  using maskLoop_full [of "masking_key h" "masked_bytes (masking_key h) (bytes_of payload)"]
  by (simp add: decodePayload_def)

text \<open>
  C1. Every frame that \<open>createFrame\<close> builds for a payload of at most \<open>MAX_FRAME_SIZE\<close> bytes,
  masked or not, with any bytes after it, is read back by \<open>parseHeader\<close>: the opcode, the mask
  flag and the length are the ones encoded, \<open>headerSize\<close> is exactly where the payload starts,
  and \<open>decodePayload\<close> of the rest of the frame returns the payload.
\<close>

theorem frame_roundtrip:
  assumes "createFrame rnd op payload m = Inr frame" and "length payload \<le> unat MAX_FRAME_SIZE"
  shows "\<exists>h. parseHeader (frame @ rest) h0 = Inr (True, h) \<and> fin h \<and> opcode h = op \<and> masked h = m \<and>
    unat (payload_length h) = length payload \<and> length frame = headerSize h + length payload \<and>
    decodePayload h (drop (headerSize h) frame) = Inr payload"
proof -
  let ?h = "frameHeader rnd op (length payload) m h0"
  have n: "length payload < 2 ^ 64" using assms(2) by (simp add: MAX_FRAME_SIZE_nat)
  then have u: "unat (payload_length ?h) = length payload" by (simp add: unat_of_nat)
  note split = createFrame_split [OF assms(1)] and size = headerSize_frameHeader [OF n]
  have "length frame = headerSize ?h + length payload" using split by (simp add: size)
  moreover have "decodePayload ?h (drop (headerSize ?h) frame) = Inr payload"
    using decode_masked [of payload ?h] u split by (cases m) (simp_all add: size)
  ultimately show ?thesis
    using parse_created [OF assms, of rest h0] u by (intro exI [of _ ?h]) simp
qed

theorem frame_roundtrip_witness:
  "\<exists>frame h. createFrame 0x37FA213D Ping ''Hi'' True = Inr frame \<and>
     parseHeader (frame @ [7]) 
       \<lparr>fin = False, opcode = Text, masked = False, payload_length = 0, masking_key = 0\<rparr> = Inr (True, h) \<and>
     decodePayload h (drop (headerSize h) frame) = Inr ''Hi''"
proof -
  obtain frame where f: "createFrame 0x37FA213D Ping ''Hi'' True = Inr frame"
    by (simp add: createFrame_def validateOpcode_def)
  have "length ''Hi'' \<le> unat MAX_FRAME_SIZE" by (simp add: MAX_FRAME_SIZE_def)
  from frame_roundtrip [OF f this, of "[7]"] f show ?thesis by blast
qed

text \<open>
  C2. \<open>parseHeader\<close> computes the reference reading of the header: it throws exactly when a
  complete length field declares more than \<open>MAX_FRAME_SIZE\<close> bytes, returns false exactly when
  bytes of the header are missing, and otherwise returns true with every field as the bytes
  on the wire say, for every input and whatever the out-parameter held before.
\<close>

theorem parseHeader_refines_spec: "verdict (parseHeader data h0) = headerSpec data h0"
  by (rule headerSpec_correct)

text \<open>
  C34. When \<open>parseHeader\<close> returns true, \<open>headerSize\<close> equals the number of header bytes the
  parser has read if and only if the length was sent in its shortest form. \<open>headerSize\<close> looks
  at the value of the length and not at the form it was sent in, so a longer form, which the
  parser accepts, makes the caller cut the payload at the wrong offset.
\<close>

theorem headerSize_agrees_iff_minimal:
  assumes "parseHeader data h0 = Inr (True, h)"
  shows "headerSize h = wireHeaderSize data \<longleftrightarrow> minimalLength data"
proof -
  have h: "h = wireHeader data h0" using assms
    by (auto simp: parseHeader_iff headerSpec_def split: if_splits)
  consider "lengthFieldSize data = 0" | "lengthFieldSize data = 2" | "lengthFieldSize data = 8"
    by (metis lengthFieldSize_def)
  then show ?thesis
    using wireLength_ranges [of data]
    by cases (auto simp: h headerSize_def wireHeader_def wireHeaderSize_def minimalLength_def
       word_le_nat_alt word_less_nat_alt unat_wireLength)
qed

theorem headerSize_agrees_witness:
  "\<exists>h. parseHeader [0x82, 0xFE, 0, 126, 1, 2, 3, 4]
       \<lparr>fin = False, opcode = Text, masked = False, payload_length = 0, masking_key = 0\<rparr> = Inr (True, h) \<and> headerSize h = 8"
proof -
  let ?data = "[0x82, 0xFE, 0, 126, 1, 2, 3, 4] :: byte list"
  obtain h where h: "parseHeader ?data
      \<lparr>fin = False, opcode = Text, masked = False, payload_length = 0, masking_key = 0\<rparr> = Inr (True, h)"
    by (simp add: parseHeader_def parseTail_def MAX_FRAME_SIZE_def)
  have "wireHeaderSize ?data = 8" "minimalLength ?data"
    by (simp_all add: wireHeaderSize_def lengthFieldSize_def wireMasked_def minimalLength_def
        wireLength_def be_nat_def)
  with headerSize_agrees_iff_minimal [OF h] h show ?thesis by auto
qed

lemma maskLoop_prefix:
  assumes "len \<le> length data"
  shows "maskLoop k len 0 data = masked_bytes k (take len data) @ drop len data"
  using assms by (auto simp: maskLoop_eq masked_bytes_def nth_append intro!: nth_equalityI)

text \<open>
  \<open>applyMask\<close> on the first \<open>len\<close> bytes of a buffer is the masking of RFC 6455: byte
  \<open>i\<close> is xored with byte \<open>i mod 4\<close> of the key, most significant first, the bytes from
  \<open>len\<close> on are untouched, and applying it twice restores the buffer.
\<close>

theorem applyMask_correct:
  assumes "len \<le> length data"
  shows "applyMask k data len = masked_bytes k (take len data) @ drop len data \<and>
    applyMask k (applyMask k data len) len = data"
  using assms by (simp add: applyMask_def maskLoop_prefix)

theorem applyMask_correct_witness:
  "applyMask 0x01020304 [0x10, 0x20, 0x30] 2 = [0x11, 0x22, 0x30]"
  using applyMask_correct [of 2 "[0x10, 0x20, 0x30]" "0x01020304"]
  by (simp add: masked_bytes_def keyByte_def upt_rec)

text \<open>
  \<open>createFrame\<close> throws exactly for an opcode that names no enumerator, with the message of
  \<open>validateOpcode\<close>; every frame it builds starts with the FIN bit and the opcode and is
  the header and one byte per payload byte long.
\<close>

theorem createFrame_total:
  "(createFrame rnd op payload m = Inl e \<longleftrightarrow>
      (\<exists>b. op = Unnamed b) \<and> e = Invalid_argument ''Invalid WebSocket opcode'') \<and>
   (\<forall>frame. createFrame rnd op payload m = Inr frame \<longrightarrow>
      hd frame = 0x80 OR byte_of_opcode op \<and>
      length frame = 1 + length (lengthBytes (length payload) m) + (if m then 4 else 0) + length payload)"
proof
  show "createFrame rnd op payload m = Inl e \<longleftrightarrow>
      (\<exists>b. op = Unnamed b) \<and> e = Invalid_argument ''Invalid WebSocket opcode''"
    by (cases op) (auto simp: createFrame_def validateOpcode_def Let_def)
  show "\<forall>frame. createFrame rnd op payload m = Inr frame \<longrightarrow>
      hd frame = 0x80 OR byte_of_opcode op \<and>
      length frame = 1 + length (lengthBytes (length payload) m) + (if m then 4 else 0) + length payload"
    by (auto simp: headerBytes_def dest!: createFrame_split)
qed

theorem createFrame_total_witness:
  "createFrame 0 (Unnamed 3) ''x'' False = Inl (Invalid_argument ''Invalid WebSocket opcode'') \<and>
   (\<exists>frame. createFrame 0 Text ''x'' False = Inr frame \<and> length frame = 3)"
proof -
  obtain frame where "createFrame 0 Text ''x'' False = Inr frame"
    by (simp add: createFrame_def validateOpcode_def)
  then show ?thesis
    using createFrame_total [of 0 "Unnamed 3" "''x''" False]
      createFrame_total [of 0 Text "''x''" False] by (auto simp: lengthBytes_def)
qed

end
