(* ===== verification/Stream_Decoder.thy ===== *)
theory Stream_Decoder
  imports Messenger_Prelude
begin

text \<open>
  The interface between a byte stream and the code that takes frames off its front. A
  decoder looks at the bytes received so far and wants more of them, rejects them, or gives
  one frame and the bytes after it. \<open>decodeAll\<close> takes frames until the decoder stops. The
  locale states what a decoder promises, and what a reader may conclude from it: the frames
  do not depend on how the stream was cut into pieces.
\<close>

datatype ('b, 'f) decoded = Need | Bad exn | Got 'f "'b list"

function decodeAll :: "('b list \<Rightarrow> ('b, 'f) decoded) \<Rightarrow> 'b list \<Rightarrow> 'f list \<times> 'b list \<times> exn option" where
  "decodeAll d bs =
     (case d bs of
        Need \<Rightarrow> ([], bs, None)
      | Bad e \<Rightarrow> ([], bs, Some e)
      | Got f rest \<Rightarrow>
          if length rest < length bs
          then (case decodeAll d rest of (fs, r) \<Rightarrow> (f # fs, r))
          else ([f], rest, None))"
  by pat_completeness auto
termination
  by (relation "measure (\<lambda>(_, bs). length bs)") auto

declare decodeAll.simps [simp del]

locale stream_decoder =
  fixes d :: "'b list \<Rightarrow> ('b, 'f) decoded"
  assumes got_shrinks: "d bs = Got f rest \<Longrightarrow> length rest < length bs"
    and got_append: "d bs = Got f rest \<Longrightarrow> d (bs @ cs) = Got f (rest @ cs)"
    and bad_append: "d bs = Bad e \<Longrightarrow> d (bs @ cs) = Bad e"
begin

lemma decodeAll_Need: "d bs = Need \<Longrightarrow> decodeAll d bs = ([], bs, None)"
  by (simp add: decodeAll.simps [of d bs])

lemma decodeAll_Bad: "d bs = Bad e \<Longrightarrow> decodeAll d bs = ([], bs, Some e)"
  by (simp add: decodeAll.simps [of d bs])

lemma decodeAll_Got:
  "d bs = Got f rest \<Longrightarrow> decodeAll d bs = (case decodeAll d rest of (fs, r) \<Rightarrow> (f # fs, r))"
  using got_shrinks [of bs f rest] by (simp add: decodeAll.simps [of d bs])

lemmas decodeAll_step = decodeAll_Need decodeAll_Bad decodeAll_Got

text \<open>Well-founded induction along the frames of a stream.\<close>

lemma stream_induct [case_names Need Bad Got]:
  assumes "\<And>bs. d bs = Need \<Longrightarrow> P bs" and "\<And>bs e. d bs = Bad e \<Longrightarrow> P bs"
    and "\<And>bs f rest. d bs = Got f rest \<Longrightarrow> P rest \<Longrightarrow> P bs"
  shows "P bs"
proof (induction bs rule: length_induct)
  case (1 bs)
  then show ?case
    using assms got_shrinks by (cases "d bs") auto
qed

lemma decodeAll_append_Some:
  "decodeAll d bs = (fs, rest, Some e) \<Longrightarrow> decodeAll d (bs @ cs) = (fs, rest @ cs, Some e)"
  by (induction bs arbitrary: fs rule: stream_induct)
    (auto simp: decodeAll_step decodeAll_Got [OF got_append] decodeAll_Bad [OF bad_append]
      split: prod.splits)

lemma decodeAll_append_None:
  "decodeAll d bs = (fs, rest, None) \<Longrightarrow>
   decodeAll d (bs @ cs) = (case decodeAll d (rest @ cs) of (gs, r) \<Rightarrow> (fs @ gs, r))"
  by (induction bs arbitrary: fs rule: stream_induct)
    (auto simp: decodeAll_step decodeAll_Got [OF got_append] split: prod.splits)

text \<open>What is left over holds no further frame.\<close>

lemma decodeAll_rest: "decodeAll d bs = (fs, rest, None) \<Longrightarrow> d rest = Need"
  by (induction bs arbitrary: fs rule: stream_induct) (auto simp: decodeAll_step split: prod.splits)

text \<open>A stream of encoded frames decodes to those frames, whatever follows it.\<close>

lemma decodeAll_encoded:
  assumes "\<And>f cs. f \<in> set fs \<Longrightarrow> d (enc f @ cs) = Got (g f) cs"
  shows "decodeAll d (concat (map enc fs) @ cs) = (case decodeAll d cs of (gs, r) \<Rightarrow> (map g fs @ gs, r))"
  using assms by (induction fs) (auto simp: decodeAll_Got split: prod.splits)

end

end
