(* ===== verification/Socket_Utils.thy ===== *)
theory Socket_Utils
  imports Messenger_Prelude "HOL-Library.State_Monad" "HOL-Library.Monad_Syntax"
begin

text \<open>
  The wrappers of Winsock, \<open>src/cool_server/socket_utils.h\<close> and \<open>socket_utils.cpp\<close>.

  Winsock is a parameter: what a call answers is a function of the history of the calls made
  before and of the call. The wrappers are programs of the state monad over that history, so
  that which system calls they make, and in which order, is part of what is proved of them.
\<close>

section \<open>System calls\<close>

datatype sys_call =
    WSASocket
  | Setsockopt_reuse SOCKET
  | Bind SOCKET u16
  | Listen SOCKET
  | Ioctlsocket_nonblocking SOCKET
  | Closesocket SOCKET
  | Shutdown_send SOCKET
  | WSAIoctl_AcceptEx SOCKET
  | AcceptEx SOCKET SOCKET u64 u32 u64
  | WSAGetLastError
  | Socket
  | Send SOCKET string
  | Connect SOCKET string u16
  | WSARecv SOCKET
  | WSASend SOCKET string
  | LocalFree
  | WSAStartup
  | WSACleanup
  | GetLastError
  | CreateIoCompletionPort
  | Associate SOCKET u64
  | Accept_on SOCKET
  | PostQueuedCompletionStatus u32 u64 u64
  | CloseHandle u64
  | Cerr string
  | Cout string

type_synonym history = "sys_call list"

text \<open>
  \<open>answer\<close> gives the result of a call as a word (\<open>SOCKET_ERROR\<close> is -1, a \<open>BOOL\<close> is 0 or 1), and
  \<open>message\<close> what \<open>FormatMessageA\<close> writes for an error code, if it succeeds.
\<close>

record winsock =
  answer :: "history \<Rightarrow> sys_call \<Rightarrow> u64"
  format_message :: "history \<Rightarrow> u32 \<Rightarrow> string option"

definition SOCKET_ERROR :: u64 where "SOCKET_ERROR = -1"
definition WSA_IO_PENDING :: u64 where "WSA_IO_PENDING = 997"

definition sys_call :: "winsock \<Rightarrow> sys_call \<Rightarrow> (history, u64) state" where
  "sys_call os c = State (\<lambda>h. (answer os h c, h @ [c]))"

definition formatMessage :: "winsock \<Rightarrow> u32 \<Rightarrow> (history, string option) state" where
  "formatMessage os code = State (\<lambda>h. (format_message os h code, h))"

definition cerr :: "string \<Rightarrow> (history, unit) state" where
  "cerr s = State (\<lambda>h. ((), h @ [Cerr s]))"

definition cout :: "string \<Rightarrow> (history, unit) state" where
  "cout s = State (\<lambda>h. ((), h @ [Cout s]))"

text \<open>\<open>std::cerr << t << WSAGetLastError() << newline\<close>.\<close>

definition errorLine :: "winsock \<Rightarrow> string \<Rightarrow> (history, unit) state" where
  "errorLine os t = do {
     _ \<leftarrow> cerr t;
     e \<leftarrow> sys_call os WSAGetLastError;
     cerr (int_to_string (sint (ucast e :: u32)) @ newline)
   }"

text \<open>What has been sent to whom.\<close>

fun responses :: "history \<Rightarrow> (SOCKET \<times> string) list" where
  "responses [] = []"
| "responses (Send s m # cs) = (s, m) # responses cs"
| "responses (_ # cs) = responses cs"

lemma responses_append [simp]: "responses (xs @ ys) = responses xs @ responses ys"
  by (induction xs rule: responses.induct) auto

text \<open>What has been sent to one socket.\<close>

definition sent_to :: "SOCKET \<Rightarrow> (SOCKET \<times> string) list \<Rightarrow> string list" where
  "sent_to t xs = map snd (filter (\<lambda>x. fst x = t) xs)"

lemma sent_to_append [simp]: "sent_to t (xs @ ys) = sent_to t xs @ sent_to t ys"
  by (simp add: sent_to_def)

lemma responses_sends [simp]: "responses (map (\<lambda>c. Send (f c) (g c)) xs) = map (\<lambda>c. (f c, g c)) xs"
  by (induction xs) auto

section \<open>The wrappers\<close>

definition getLastErrorString :: "winsock \<Rightarrow> (history, string) state" where
  "getLastErrorString os = do {
     error \<leftarrow> sys_call os WSAGetLastError;
     if error = 0 then State_Monad.return ''No error''
     else do {
       buffer \<leftarrow> formatMessage os (ucast error);
       case buffer of
         Some (c # cs) \<Rightarrow> do {
           _ \<leftarrow> sys_call os LocalFree;
           State_Monad.return (c # cs)
         }
       | _ \<Rightarrow> State_Monad.return (''Unknown error '' @ to_string (unat (ucast error :: u32)))
     }
   }"

text \<open>\<open>std::cerr << what << getLastErrorString() << newline\<close>, evaluated from left to right.\<close>

definition report :: "winsock \<Rightarrow> string \<Rightarrow> (history, unit) state" where
  "report os what = do {
     _ \<leftarrow> cerr what;
     reason \<leftarrow> getLastErrorString os;
     cerr (reason @ [CHR 0x0A])
   }"

definition createSocket :: "winsock \<Rightarrow> (history, SOCKET) state" where
  "createSocket os = do {
     sock \<leftarrow> sys_call os WSASocket;
     if sock = INVALID_SOCKET then do {
       _ \<leftarrow> report os ''Socket creation failed: '';
       State_Monad.return sock
     }
     else State_Monad.return sock
   }"

text \<open>The four setters check the socket, make one call and report its failure.\<close>

definition checked :: "winsock \<Rightarrow> SOCKET \<Rightarrow> sys_call \<Rightarrow> string \<Rightarrow> (history, bool) state" where
  "checked os socket c what =
     (if socket = INVALID_SOCKET then State_Monad.return False
      else do {
        r \<leftarrow> sys_call os c;
        if r = SOCKET_ERROR then do {
          _ \<leftarrow> report os what;
          State_Monad.return False
        }
        else State_Monad.return True
      })"

definition setReuseAddr :: "winsock \<Rightarrow> SOCKET \<Rightarrow> (history, bool) state" where
  "setReuseAddr os socket =
     checked os socket (Setsockopt_reuse socket) ''Setsockopt SO_REUSEADDR failed: ''"

definition bindSocket :: "winsock \<Rightarrow> SOCKET \<Rightarrow> int \<Rightarrow> (history, bool) state" where
  "bindSocket os socket port = checked os socket (Bind socket (word_of_int port)) ''Bind failed: ''"

definition startListening :: "winsock \<Rightarrow> SOCKET \<Rightarrow> (history, bool) state" where
  "startListening os socket = checked os socket (Listen socket) ''Listen failed: ''"

definition setNonBlocking :: "winsock \<Rightarrow> SOCKET \<Rightarrow> (history, bool) state" where
  "setNonBlocking os socket =
     checked os socket (Ioctlsocket_nonblocking socket) ''Non-blocking mode failed: ''"

definition closeSocket :: "winsock \<Rightarrow> SOCKET \<Rightarrow> (history, unit) state" where
  "closeSocket os socket =
     (if socket \<noteq> INVALID_SOCKET then do {
        _ \<leftarrow> sys_call os (Closesocket socket);
        State_Monad.return ()
      }
      else State_Monad.return ())"

text \<open>\<open>sizeof(sockaddr_in) + 16\<close>.\<close>

definition addrBufSize :: u32 where "addrBufSize = 16 + 16"

definition acceptEx :: "winsock \<Rightarrow> SOCKET \<Rightarrow> SOCKET \<Rightarrow> u64 \<Rightarrow> u32 \<Rightarrow> u64 \<Rightarrow> (history, bool) state" where
  "acceptEx os listenSocket acceptSocket outputBuffer bytes overlapped =
     (if listenSocket = INVALID_SOCKET \<or> acceptSocket = INVALID_SOCKET then State_Monad.return False
      else do {
        r \<leftarrow> sys_call os (WSAIoctl_AcceptEx listenSocket);
        if r = SOCKET_ERROR then do {
          _ \<leftarrow> report os ''WSAIoctl failed for AcceptEx: '';
          State_Monad.return False
        }
        else if bytes < 2 * addrBufSize then do {
          _ \<leftarrow> cerr (''Buffer too small for AcceptEx, need at least '' @
                  to_string (unat (2 * addrBufSize)) @ '' bytes'' @ [CHR 0x0A]);
          State_Monad.return False
        }
        else do {
          result \<leftarrow> sys_call os (AcceptEx listenSocket acceptSocket outputBuffer 0 overlapped);
          if result = 0 then do {
            e \<leftarrow> sys_call os WSAGetLastError;
            if e \<noteq> WSA_IO_PENDING then do {
              _ \<leftarrow> report os ''AcceptEx failed: '';
              State_Monad.return False
            }
            else State_Monad.return True
          }
          else State_Monad.return True
        }
      })"

section \<open>What the wrappers return and call\<close>

lemma run_sys_call [simp]: "run_state (sys_call os c) h = (answer os h c, h @ [c])"
  by (simp add: sys_call_def)

lemma run_cerr [simp]: "run_state (cerr s) h = ((), h @ [Cerr s])"
  by (simp add: cerr_def)

lemma run_cout [simp]: "run_state (cout s) h = ((), h @ [Cout s])"
  by (simp add: cout_def)

lemma run_formatMessage [simp]: "run_state (formatMessage os code) h = (format_message os h code, h)"
  by (simp add: formatMessage_def)

text \<open>What \<open>report\<close> may add to the history: output and questions for the reason.\<close>

definition reporting :: "sys_call \<Rightarrow> bool" where
  "reporting c \<longleftrightarrow> (\<exists>s. c = Cerr s) \<or> c = WSAGetLastError \<or> c = LocalFree"

lemma run_report: "\<exists>cs. run_state (report os what) h = ((), h @ cs) \<and> list_all reporting cs"
  by (auto simp: report_def getLastErrorString_def reporting_def split: option.split list.split)

lemma run_createSocket:
  "\<exists>cs. run_state (createSocket os) h = (answer os h WSASocket, h @ WSASocket # cs) \<and> list_all reporting cs"
  using run_report [of os "''Socket creation failed: ''" "h @ [WSASocket]"]
  by (auto simp: createSocket_def)

lemma run_checked:
  "socket \<noteq> INVALID_SOCKET \<Longrightarrow>
   \<exists>cs. run_state (checked os socket c what) h = (answer os h c \<noteq> SOCKET_ERROR, h @ c # cs) \<and> list_all reporting cs"
  using run_report [of os what "h @ [c]"] by (auto simp: checked_def)

lemma run_checked_invalid [simp]:
  "run_state (checked os INVALID_SOCKET c what) h = (False, h)"
  by (simp add: checked_def)

lemma acceptEx_small:
  assumes "bytes < 64"
  shows "\<exists>cs. run_state (acceptEx os listenSocket acceptSocket buffer bytes overlapped) h = (False, h @ cs) \<and>
    list_all (\<lambda>c. reporting c \<or> c = WSAIoctl_AcceptEx listenSocket) cs"
proof -
  have "bytes < 2 * addrBufSize" using assms by (simp add: addrBufSize_def)
  moreover obtain cs where "run_state (report os ''WSAIoctl failed for AcceptEx: '') (h @ [WSAIoctl_AcceptEx listenSocket]) =
      ((), h @ [WSAIoctl_AcceptEx listenSocket] @ cs)" "list_all reporting cs"
    using run_report [of os _ "h @ [WSAIoctl_AcceptEx listenSocket]"] by auto
  moreover have "list_all reporting cs \<Longrightarrow> list_all (\<lambda>c. reporting c \<or> c = WSAIoctl_AcceptEx listenSocket) cs"
    by (auto simp: list_all_iff)
  moreover have "reporting (Cerr s)" for s by (simp add: reporting_def)
  ultimately show ?thesis by (simp add: acceptEx_def)
qed

definition one_call :: "winsock \<Rightarrow> SOCKET \<Rightarrow> (history, bool) state \<Rightarrow> sys_call \<Rightarrow> history \<Rightarrow> bool" where
  "one_call os s f c h \<longleftrightarrow>
     (if s = INVALID_SOCKET then run_state f h = (False, h)
      else \<exists>cs. run_state f h = (answer os h c \<noteq> SOCKET_ERROR, h @ c # cs) \<and> list_all reporting cs)"

section \<open>Properties\<close>

text \<open>
  The wrappers that configure a socket answer true exactly when the socket is valid and their
  one call of Winsock succeeded. They make that call first and then at most report its failure;
  for an invalid socket they call nothing at all.
\<close>

theorem socket_setters_correct:
  "one_call os s (setReuseAddr os s) (Setsockopt_reuse s) h \<and>
   one_call os s (bindSocket os s port) (Bind s (word_of_int port)) h \<and>
   one_call os s (startListening os s) (Listen s) h \<and>
   one_call os s (setNonBlocking os s) (Ioctlsocket_nonblocking s) h"
  using run_checked [of s os _ _ h]
  by (simp add: one_call_def setReuseAddr_def bindSocket_def startListening_def setNonBlocking_def)

text \<open>
  \<open>acceptEx\<close> answers true exactly when both sockets are valid, the extension function was
  found, the buffer holds two addresses (64 bytes), and \<open>AcceptEx\<close> succeeded or is pending.
\<close>

theorem acceptEx_correct:
  "fst (run_state (acceptEx os l a buffer bytes ov) h) \<longleftrightarrow>
     l \<noteq> INVALID_SOCKET \<and> a \<noteq> INVALID_SOCKET \<and> answer os h (WSAIoctl_AcceptEx l) \<noteq> SOCKET_ERROR \<and>
     64 \<le> bytes \<and>
     \<not> (answer os (h @ [WSAIoctl_AcceptEx l]) (AcceptEx l a buffer 0 ov) = 0 \<and>
        answer os (h @ [WSAIoctl_AcceptEx l, AcceptEx l a buffer 0 ov]) WSAGetLastError \<noteq> WSA_IO_PENDING)"
  by (auto simp: acceptEx_def addrBufSize_def split: prod.splits)

end
