(* ===== verification/Iocp.thy ===== *)
theory Iocp
  imports Socket_Utils
begin

text \<open>
  The completion-port core, \<open>src/cool_server/iocp_core.h\<close> and \<open>iocp_core.cpp\<close>.

  \<open>IOCPCore\<close> is a record; the callbacks work on a state \<open>'s\<close> of their owner (for the server, the
  clients and their connections). The kernel's completion port is a queue of packets. What one
  worker does with a packet is the function \<open>dispatch\<close>; the workers, the thread that calls
  \<open>stop\<close> and the kernel are interleaved by the step relation \<open>iocp_step\<close>, one step per access to
  the flag, to the port or to the callbacks' mutex.
\<close>

section \<open>State\<close>

datatype CompletionKeyType = CONNECTION | READ | WRITE

fun key_value :: "CompletionKeyType \<Rightarrow> u64" where
  "key_value CONNECTION = 0xAAAA"
| "key_value READ = 0xAAAB"
| "key_value WRITE = 0xAAAC"

text \<open>
  \<open>static_cast<CompletionKeyType>(key)\<close>: the enumeration is stored in an \<open>int\<close>, so only the low
  32 bits of the key decide.
\<close>

definition key_type :: "u64 \<Rightarrow> CompletionKeyType option" where
  "key_type key =
     (let v = ucast key :: u32 in
      if v = 0xAAAA then Some CONNECTION
      else if v = 0xAAAB then Some READ
      else if v = 0xAAAC then Some WRITE
      else None)"

type_synonym 's completion_cb = "u32 \<Rightarrow> u64 \<Rightarrow> u64 \<Rightarrow> 's \<Rightarrow> 's outcome"

definition INVALID_HANDLE_VALUE :: u64 where "INVALID_HANDLE_VALUE = -1"

record 's iocp =
  iocp_handle :: u64
  iocp_running :: bool
  iocp_workers :: nat
  iocp_mutex :: bool
  connection_cb :: "'s completion_cb option"
  read_cb :: "'s completion_cb option"
  write_cb :: "'s completion_cb option"

definition newIocp :: "'s iocp" where
  "newIocp = \<lparr>iocp_handle = INVALID_HANDLE_VALUE, iocp_running = False, iocp_workers = 0,
     iocp_mutex = False, connection_cb = None, read_cb = None, write_cb = None\<rparr>"

text \<open>\<open>CreateIoCompletionPort\<close> answers 0 (\<open>NULL\<close>) when it fails.\<close>

definition report_error :: "winsock \<Rightarrow> string \<Rightarrow> (history, unit) state" where
  "report_error os what = do {
     _ \<leftarrow> cerr what;
     e \<leftarrow> sys_call os GetLastError;
     cerr (to_string (unat (ucast e :: u32)) @ [CHR 0x0A])
   }"

definition setupPort :: "winsock \<Rightarrow> 's iocp \<Rightarrow> (history, bool \<times> 's iocp) state" where
  "setupPort os io = do {
     handle \<leftarrow> sys_call os CreateIoCompletionPort;
     if handle = 0 then do {
       _ \<leftarrow> report_error os ''Failed to create IOCP: '';
       State_Monad.return (False, io\<lparr>iocp_handle := handle\<rparr>)
     }
     else State_Monad.return (True, io\<lparr>iocp_handle := handle\<rparr>)
   }"

definition associateSocket :: "winsock \<Rightarrow> SOCKET \<Rightarrow> u64 \<Rightarrow> (history, unit) state" where
  "associateSocket os sock k = do {
     r \<leftarrow> sys_call os (Associate sock k);
     if r = 0 then report_error os ''Failed to associate socket: '' else State_Monad.return ()
   }"

definition setConnectionCallback :: "'s completion_cb \<Rightarrow> 's iocp \<Rightarrow> 's iocp outcome" where
  "setConnectionCallback cb io = (if iocp_mutex io then Stuck io else Done (io\<lparr>connection_cb := Some cb\<rparr>))"

definition setReadCallback :: "'s completion_cb \<Rightarrow> 's iocp \<Rightarrow> 's iocp outcome" where
  "setReadCallback cb io = (if iocp_mutex io then Stuck io else Done (io\<lparr>read_cb := Some cb\<rparr>))"

definition setWriteCallback :: "'s completion_cb \<Rightarrow> 's iocp \<Rightarrow> 's iocp outcome" where
  "setWriteCallback cb io = (if iocp_mutex io then Stuck io else Done (io\<lparr>write_cb := Some cb\<rparr>))"

definition runWorkerThreads :: "nat \<Rightarrow> 's iocp \<Rightarrow> 's iocp" where
  "runWorkerThreads count io = io\<lparr>iocp_running := True, iocp_workers := iocp_workers io + count\<rparr>"

text \<open>
  \<open>stop\<close> as its caller sees it, once the workers have been joined; that the joins return is
  proved of the step relation below.
\<close>

fun wakeWorkers :: "winsock \<Rightarrow> nat \<Rightarrow> (history, unit) state" where
  "wakeWorkers os 0 = State_Monad.return ()"
| "wakeWorkers os (Suc n) = do {
     _ \<leftarrow> sys_call os (PostQueuedCompletionStatus 0 0 0);
     wakeWorkers os n
   }"

definition stopPort :: "winsock \<Rightarrow> 's iocp \<Rightarrow> (history, 's iocp) state" where
  "stopPort os io =
     (if \<not> iocp_running io then State_Monad.return io
      else do {
        _ \<leftarrow> wakeWorkers os (iocp_workers io);
        if iocp_handle io \<noteq> INVALID_HANDLE_VALUE then do {
          _ \<leftarrow> sys_call os (CloseHandle (iocp_handle io));
          State_Monad.return (io\<lparr>iocp_running := False, iocp_handle := INVALID_HANDLE_VALUE\<rparr>)
        }
        else State_Monad.return (io\<lparr>iocp_running := False\<rparr>)
      })"

text \<open>The destructor.\<close>

definition destroyPort :: "winsock \<Rightarrow> 's iocp \<Rightarrow> (history, 's iocp) state" where
  "destroyPort os io = stopPort os io"

section \<open>One packet\<close>

text \<open>
  What \<open>GetQueuedCompletionStatus\<close> gives: its result, the three out-parameters (0 is the null
  pointer), and the value of \<open>GetLastError\<close> when it failed.
\<close>

record packet =
  pk_ok :: bool
  pk_bytes :: u32
  pk_key :: u64
  pk_overlapped :: u64
  pk_error :: u32

definition invoke :: "'s completion_cb option \<Rightarrow> u32 \<Rightarrow> packet \<Rightarrow> 's \<Rightarrow> 's outcome" where
  "invoke cb n p s = (case cb of None \<Rightarrow> Done s | Some f \<Rightarrow> f n (pk_key p) (pk_overlapped p) s)"

definition dispatch :: "'s iocp \<Rightarrow> packet \<Rightarrow> 's \<Rightarrow> 's outcome" where
  "dispatch io p s =
     (if \<not> pk_ok p then
        (if pk_overlapped p \<noteq> 0 then
           (if pk_key p = key_value READ \<and> read_cb io \<noteq> None then invoke (read_cb io) (pk_error p) p s
            else if pk_key p = key_value WRITE \<and> write_cb io \<noteq> None then invoke (write_cb io) (pk_error p) p s
            else Done s)
         else Done s)
      else if pk_overlapped p = 0 then Done s
      else
        (case key_type (pk_key p) of
           Some CONNECTION \<Rightarrow> invoke (connection_cb io) (pk_bytes p) p s
         | Some READ \<Rightarrow> invoke (read_cb io) (pk_bytes p) p s
         | Some WRITE \<Rightarrow> invoke (write_cb io) (pk_bytes p) p s
         | None \<Rightarrow> Done s))"

text \<open>The worker locks the callbacks' mutex on every path but \<open>if (!overlapped) continue\<close>.\<close>

definition locks :: "packet \<Rightarrow> bool" where
  "locks p \<longleftrightarrow> \<not> pk_ok p \<or> pk_overlapped p \<noteq> 0"

definition postedPacket :: "u32 \<Rightarrow> u64 \<Rightarrow> u64 \<Rightarrow> packet" where
  "postedPacket n k ov = \<lparr>pk_ok = True, pk_bytes = n, pk_key = k, pk_overlapped = ov, pk_error = 0\<rparr>"

definition postCompletion :: "u32 \<Rightarrow> u64 \<Rightarrow> u64 \<Rightarrow> packet list \<Rightarrow> packet list" where
  "postCompletion n k ov port = port @ [postedPacket n k ov]"

section \<open>Workers, stop and the kernel\<close>

text \<open>
  Where a worker stands: before the loop test, blocked in \<open>GetQueuedCompletionStatus\<close>, holding
  a packet before the second test, about to dispatch it, returned, or stuck in a callback.
\<close>

datatype worker = Testing | Waiting | Popped packet | Dispatching packet | Returned | Hung

text \<open>Where the thread that calls \<open>stop\<close> stands: posting (so many packets left), joining, done.\<close>

datatype stopper = Not_stopping | Posting nat | Joining | Stopped

record 's port_sys =
  core :: "'s iocp"
  io_port :: "packet list"
  threads :: "worker list"
  stopping :: stopper
  app :: 's
  crashed :: bool

definition set_thread :: "nat \<Rightarrow> worker \<Rightarrow> 's port_sys \<Rightarrow> 's port_sys" where
  "set_thread i w \<sigma> = \<sigma>\<lparr>threads := (threads \<sigma>)[i := w]\<rparr>"

text \<open>
  After the dispatch: the lock guard releases the mutex and the loop goes on; an exception ends
  the process (it leaves the thread function); a stuck callback keeps the mutex.
\<close>

fun dispatched :: "nat \<Rightarrow> packet \<Rightarrow> 's outcome \<Rightarrow> 's port_sys \<Rightarrow> 's port_sys" where
  "dispatched i p (Done s) \<sigma> = set_thread i Testing (\<sigma>\<lparr>app := s\<rparr>)"
| "dispatched i p (Raised e s) \<sigma> = \<sigma>\<lparr>app := s, crashed := True\<rparr>"
| "dispatched i p (Stuck s) \<sigma> =
     set_thread i Hung (\<sigma>\<lparr>app := s, core := (core \<sigma>)\<lparr>iocp_mutex := True\<rparr>\<rparr>)"

text \<open>One step of worker \<open>i\<close>; None when it cannot move.\<close>

definition worker_step :: "nat \<Rightarrow> 's port_sys \<Rightarrow> 's port_sys option" where
  "worker_step i \<sigma> =
     (case threads \<sigma> ! i of
        Testing \<Rightarrow> Some (set_thread i (if iocp_running (core \<sigma>) then Waiting else Returned) \<sigma>)
      | Waiting \<Rightarrow>
          (case io_port \<sigma> of
             [] \<Rightarrow> None
           | p # ps \<Rightarrow> Some (set_thread i (Popped p) (\<sigma>\<lparr>io_port := ps\<rparr>)))
      | Popped p \<Rightarrow> Some (set_thread i (if iocp_running (core \<sigma>) then Dispatching p else Returned) \<sigma>)
      | Dispatching p \<Rightarrow>
          (if locks p \<and> iocp_mutex (core \<sigma>) then None
           else Some (dispatched i p (dispatch (core \<sigma>) p (app \<sigma>)) \<sigma>))
      | Returned \<Rightarrow> None
      | Hung \<Rightarrow> None)"

text \<open>One step of the thread in \<open>stop\<close>: test and clear the flag, post, join, close the handle.\<close>

definition stop_step :: "'s port_sys \<Rightarrow> 's port_sys option" where
  "stop_step \<sigma> =
     (case stopping \<sigma> of
        Not_stopping \<Rightarrow>
          (if \<not> iocp_running (core \<sigma>) then None
           else Some (\<sigma>\<lparr>core := (core \<sigma>)\<lparr>iocp_running := False\<rparr>,
                         stopping := Posting (iocp_workers (core \<sigma>))\<rparr>))
      | Posting (Suc n) \<Rightarrow> Some (\<sigma>\<lparr>io_port := postCompletion 0 0 0 (io_port \<sigma>), stopping := Posting n\<rparr>)
      | Posting 0 \<Rightarrow> Some (\<sigma>\<lparr>stopping := Joining\<rparr>)
      | Joining \<Rightarrow>
          (if list_all (\<lambda>w. w = Returned) (threads \<sigma>)
           then Some (\<sigma>\<lparr>core := (core \<sigma>)\<lparr>iocp_handle := INVALID_HANDLE_VALUE\<rparr>, stopping := Stopped\<rparr>)
           else None)
      | Stopped \<Rightarrow> None)"

inductive iocp_step :: "'s port_sys \<Rightarrow> 's port_sys \<Rightarrow> bool" where
  worker: "\<not> crashed \<sigma> \<Longrightarrow> i < length (threads \<sigma>) \<Longrightarrow> worker_step i \<sigma> = Some \<tau> \<Longrightarrow> iocp_step \<sigma> \<tau>"
| stop: "\<not> crashed \<sigma> \<Longrightarrow> stop_step \<sigma> = Some \<tau> \<Longrightarrow> iocp_step \<sigma> \<tau>"

text \<open>The kernel adds completions of its own at any time.\<close>

inductive kernel_step :: "'s port_sys \<Rightarrow> 's port_sys \<Rightarrow> bool" where
  completion: "kernel_step \<sigma> (\<sigma>\<lparr>io_port := io_port \<sigma> @ [p]\<rparr>)"

inductive port_reach :: "'s port_sys \<Rightarrow> 's port_sys \<Rightarrow> bool" for \<sigma>0 where
  start: "port_reach \<sigma>0 \<sigma>0"
| step: "port_reach \<sigma>0 \<sigma> \<Longrightarrow> iocp_step \<sigma> \<tau> \<Longrightarrow> port_reach \<sigma>0 \<tau>"
| kernel: "port_reach \<sigma>0 \<sigma> \<Longrightarrow> kernel_step \<sigma> \<tau> \<Longrightarrow> port_reach \<sigma>0 \<tau>"

text \<open>\<open>runWorkerThreads(n)\<close> has just started its threads.\<close>

definition started :: "nat \<Rightarrow> 's iocp \<Rightarrow> 's \<Rightarrow> 's port_sys" where
  "started n io s = \<lparr>core = runWorkerThreads n io, io_port = [], threads = replicate n Testing,
     stopping = Not_stopping, app = s, crashed = False\<rparr>"

end
