(* ===== verification/Connection.thy ===== *)
theory Connection
  imports Frame_Spec Stream_Decoder Iocp
begin

text \<open>
  One WebSocket connection, \<open>src/cool_server/websocket_connection.h\<close> and
  \<open>websocket_connection.cpp\<close>.

  The object is split by who can reach its fields. A \<open>link\<close> is the part that the public
  methods (\<open>sendText\<close>, \<open>close\<close>, ...) and so the user's callbacks work on: the socket, the
  closed flag, the two mutexes (true: held by the running thread), whether the callbacks are
  set, and the heap objects \<open>AsyncOperation\<close> of pending writes. A \<open>conn\<close> adds the fields of
  the reading side, which no public method touches. \<open>trace\<close> is the history of the calls out of
  the object, newest last, and \<open>world\<close> the state the close callback works on.

  Winsock is a parameter (\<open>sys\<close>): what \<open>WSARecv\<close> and \<open>WSASend\<close> answer may depend on the
  whole history. The operations are those of one thread; \<open>socket_mutex\<close> and
  \<open>callbacks_mutex\<close> are \<open>std::mutex\<close>, so a second lock by the same thread is \<open>Stuck\<close>.
\<close>

section \<open>State\<close>

datatype io_status = IO_DONE | IO_PENDING | IO_FAILED

datatype io_event =
    Ev_associate SOCKET u64
  | Ev_recv SOCKET u64 io_status
  | Ev_send SOCKET "byte list" io_status
  | Ev_closesocket SOCKET
  | Ev_message string
  | Ev_closed

record 'w link =
  socket :: SOCKET
  is_closed :: bool
  socket_mutex :: bool
  callbacks_mutex :: bool
  on_message :: bool
  on_close :: bool
  async_ops :: "(nat \<times> byte list) list"
  next_op :: nat
  trace :: "io_event list"
  world :: 'w

record 'w conn =
  link :: "'w link"
  read_operation_buffer :: "byte list"
  fragmented_buffer :: "byte list"
  current_opcode :: Opcode
  read_buffer :: "byte list"
  expected_payload_size :: u64

text \<open>
  \<open>on_close_cb\<close> is the effect of the close callback on the world, and the exception it throws, if it
  throws; it does not call the connection again. \<open>random_mask\<close> is the value the
  random generator would give \<open>createFrame\<close>, and \<open>stack_header\<close> what the uninitialised local
  \<open>FrameHeader header\<close> happens to hold.
\<close>

record 'w sys =
  wsa_recv :: "io_event list \<Rightarrow> u64 \<Rightarrow> io_status"
  wsa_send :: "io_event list \<Rightarrow> byte list \<Rightarrow> io_status"
  on_close_cb :: "'w \<Rightarrow> exn option \<times> 'w"
  random_mask :: u32
  stack_header :: FrameHeader

definition emit :: "io_event \<Rightarrow> 'w link \<Rightarrow> 'w link" where
  "emit e l = l\<lparr>trace := trace l @ [e]\<rparr>"

definition unlock_socket :: "'w link \<Rightarrow> 'w link" where
  "unlock_socket l = l\<lparr>socket_mutex := False\<rparr>"

definition unlock_callbacks :: "'w link \<Rightarrow> 'w link" where
  "unlock_callbacks l = l\<lparr>callbacks_mutex := False\<rparr>"

definition callOnClose :: "'w sys \<Rightarrow> 'w link \<Rightarrow> 'w link outcome" where
  "callOnClose sys l =
     (if \<not> on_close l then Done l
      else case on_close_cb sys (world l) of
             (None, w) \<Rightarrow> Done (emit Ev_closed (l\<lparr>world := w\<rparr>))
           | (Some e, w) \<Rightarrow> Raised e (emit Ev_closed (l\<lparr>world := w\<rparr>)))"

section \<open>close and asyncWrite\<close>

definition closePayload :: "u16 \<Rightarrow> string \<Rightarrow> string" where
  "closePayload code reason =
     (if code \<noteq> 1000 \<or> reason \<noteq> []
      then [char_of_byte (ucast (drop_bit 8 code)), char_of_byte (ucast (code AND 0xFF))] @ reason
      else [])"

text \<open>
  The two call each other: \<open>close\<close> sends the close frame by \<open>asyncWrite\<close>, which closes the
  connection when the write fails.
\<close>

function close :: "'w sys \<Rightarrow> u16 \<Rightarrow> string \<Rightarrow> 'w link \<Rightarrow> 'w link outcome"
  and asyncWrite :: "'w sys \<Rightarrow> byte list \<Rightarrow> 'w link \<Rightarrow> 'w link outcome" where
  "close sys code reason l0 =
     (if is_closed l0 then Done l0
      else
        let l1 = l0\<lparr>is_closed := True\<rparr> in
        if socket_mutex l1 then Stuck l1
        else on_exit unlock_socket
         (let l2 = l1\<lparr>socket_mutex := True\<rparr> in
          if socket l2 = INVALID_SOCKET then Done l2
          else
            case createFrame (random_mask sys) Close (closePayload code reason) False of
              Inl e \<Rightarrow> Raised e l2
            | Inr frame \<Rightarrow>
                andthen (asyncWrite sys frame l2) (\<lambda>l3.
                  let l4 = (emit (Ev_closesocket (socket l3)) l3)\<lparr>socket := INVALID_SOCKET\<rparr> in
                  if callbacks_mutex l4 then Stuck l4
                  else on_exit unlock_callbacks
                   (callOnClose sys (l4\<lparr>callbacks_mutex := True\<rparr>)))))"
| "asyncWrite sys data l0 =
     (if is_closed l0 then Done l0
      else if socket_mutex l0 then Stuck l0
      else on_exit unlock_socket
       (let l1 = l0\<lparr>socket_mutex := True\<rparr> in
        if socket l1 = INVALID_SOCKET then Done l1
        else
          let op = next_op l1;
              l2 = l1\<lparr>async_ops := async_ops l1 @ [(op, data)], next_op := Suc op\<rparr>;
              l3 = emit (Ev_associate (socket l2) (key_value WRITE)) l2;
              status = wsa_send sys (trace l3) data;
              l4 = emit (Ev_send (socket l3) data status) l3
          in if status = IO_FAILED
             then close sys 1006 ''Write error''
                    (l4\<lparr>async_ops := filter (\<lambda>(i, _). i \<noteq> op) (async_ops l4)\<rparr>)
             else Done l4))"
  by pat_completeness auto
termination
  by (relation "measure (\<lambda>x. case x of
        Inl (_, _, _, l) \<Rightarrow> if is_closed l then 0 else 2
      | Inr (_, _, l) \<Rightarrow> if is_closed l then 1 else 3)")
    (auto simp: emit_def)

declare close.simps [simp del] asyncWrite.simps [simp del]

section \<open>The other public operations\<close>

definition sendFrame :: "'w sys \<Rightarrow> Opcode \<Rightarrow> string \<Rightarrow> 'w link \<Rightarrow> 'w link outcome" where
  "sendFrame sys op payload l =
     (case createFrame (random_mask sys) op payload False of
        Inl e \<Rightarrow> Raised e l
      | Inr frame \<Rightarrow> asyncWrite sys frame l)"

definition sendText :: "'w sys \<Rightarrow> string \<Rightarrow> 'w link \<Rightarrow> 'w link outcome" where
  "sendText sys message l = sendFrame sys Text message l"

definition sendBinary :: "'w sys \<Rightarrow> byte list \<Rightarrow> 'w link \<Rightarrow> 'w link outcome" where
  "sendBinary sys data l = sendFrame sys Binary (string_of data) l"

definition sendPong :: "'w sys \<Rightarrow> string \<Rightarrow> 'w link \<Rightarrow> 'w link outcome" where
  "sendPong sys message l = sendFrame sys Pong message l"

definition with_callbacks :: "('w link \<Rightarrow> 'w link outcome) \<Rightarrow> 'w link \<Rightarrow> 'w link outcome" where
  "with_callbacks body l =
     (if callbacks_mutex l then Stuck l
      else on_exit unlock_callbacks (body (l\<lparr>callbacks_mutex := True\<rparr>)))"

definition setMessageCallback :: "'w link \<Rightarrow> 'w link outcome" where
  "setMessageCallback l = with_callbacks (\<lambda>l. Done (l\<lparr>on_message := True\<rparr>)) l"

definition setCloseCallback :: "'w link \<Rightarrow> 'w link outcome" where
  "setCloseCallback l = with_callbacks (\<lambda>l. Done (l\<lparr>on_close := True\<rparr>)) l"

section \<open>Reading\<close>

text \<open>\<open>cb\<close> is what the user's message callback does when it is called with a message.\<close>

type_synonym 'w message_cb = "string \<Rightarrow> 'w link \<Rightarrow> 'w link outcome"

definition deliver :: "'w message_cb \<Rightarrow> string \<Rightarrow> 'w link \<Rightarrow> 'w link outcome" where
  "deliver cb message l =
     (if on_message l then cb message (emit (Ev_message message) l) else Done l)"

definition handleFrame :: "'w sys \<Rightarrow> 'w message_cb \<Rightarrow> FrameHeader \<Rightarrow> byte list \<Rightarrow> 'w link \<Rightarrow> 'w link outcome" where
  "handleFrame sys cb header payload l =
     catch_exn
      (case decodePayload header payload of
         Inl e \<Rightarrow> Raised e l
       | Inr message \<Rightarrow>
           with_callbacks (\<lambda>l.
             case opcode header of
               Text \<Rightarrow> deliver cb message l
             | Binary \<Rightarrow> deliver cb message l
             | Ping \<Rightarrow> sendPong sys message l
             | Close \<Rightarrow> close sys 1000 ''Normal closure'' l
             | _ \<Rightarrow> Done l) l)
      (close sys 1002 ''Protocol error'')"

text \<open>
  Steps 1 to 4 of the loop body of \<open>processData\<close>: a frame off the front of \<open>read_buffer\<close>, or
  why there is none (yet).
\<close>

datatype extraction =
    NeedHeader
  | NeedPayload u64
  | BadHeader exn
  | Extracted FrameHeader "byte list" "byte list"

definition extractFrame :: "FrameHeader \<Rightarrow> byte list \<Rightarrow> extraction" where
  "extractFrame header0 buffer =
     (case parseHeader buffer header0 of
        Inl e \<Rightarrow> BadHeader e
      | Inr (False, _) \<Rightarrow> NeedHeader
      | Inr (True, header) \<Rightarrow>
          let frame_size = headerSize header + unat (payload_length header) in
          if length buffer < frame_size then NeedPayload (payload_length header)
          else Extracted header
                 (take (unat (payload_length header)) (drop (headerSize header) buffer))
                 (drop frame_size buffer))"

lemma headerSize_pos: "2 \<le> headerSize h"
  by (simp add: headerSize_def)

lemma extractFrame_shrinks: "extractFrame h0 buf = Extracted h p rest \<Longrightarrow> length rest < length buf"
  using headerSize_pos [of h]
  by (auto simp: extractFrame_def Let_def split: sum.splits prod.splits bool.splits if_splits)

text \<open>An operation of the link, as one of the whole connection.\<close>

definition on_link :: "('w link \<Rightarrow> 'w link outcome) \<Rightarrow> 'w conn \<Rightarrow> 'w conn outcome" where
  "on_link f c = on_part (\<lambda>l. c\<lparr>link := l\<rparr>) (f (link c))"

lemma on_link_Done [simp]: "on_link f c = Done c' \<Longrightarrow> read_buffer c' = read_buffer c"
  by (cases "f (link c)") (auto simp: on_link_def)

function processLoop :: "'w sys \<Rightarrow> 'w message_cb \<Rightarrow> 'w conn \<Rightarrow> 'w conn outcome" where
  "processLoop sys cb c =
     (case extractFrame (stack_header sys) (read_buffer c) of
        NeedHeader \<Rightarrow> Done c
      | NeedPayload n \<Rightarrow> Done (c\<lparr>expected_payload_size := n\<rparr>)
      | BadHeader e \<Rightarrow> Raised e c
      | Extracted header payload rest \<Rightarrow>
          andthen (on_link (handleFrame sys cb header payload) (c\<lparr>read_buffer := rest\<rparr>))
            (processLoop sys cb))"
  by pat_completeness auto
termination
  by (relation "measure (\<lambda>(_, _, c). length (read_buffer c))") (auto dest!: extractFrame_shrinks)

declare processLoop.simps [simp del]

definition processData :: "'w sys \<Rightarrow> 'w message_cb \<Rightarrow> byte list \<Rightarrow> 'w conn \<Rightarrow> 'w conn outcome" where
  "processData sys cb data c = processLoop sys cb (c\<lparr>read_buffer := read_buffer c @ data\<rparr>)"

definition resize :: "nat \<Rightarrow> byte list \<Rightarrow> byte list" where
  "resize n xs = take n xs @ replicate (n - length xs) 0"

definition readSize :: "u64 \<Rightarrow> u64" where
  "readSize expected = min (max 8192 (expected + MAX_HEADER_SIZE)) MAX_FRAME_SIZE"

definition asyncRead :: "'w sys \<Rightarrow> 'w conn \<Rightarrow> 'w conn outcome" where
  "asyncRead sys c =
     (if is_closed (link c) then Done c
      else if socket_mutex (link c) then Stuck c
      else on_exit (\<lambda>c. c\<lparr>link := unlock_socket (link c)\<rparr>)
       (let c1 = c\<lparr>link := (link c)\<lparr>socket_mutex := True\<rparr>\<rparr> in
        if socket (link c1) = INVALID_SOCKET then Done c1
        else
          let buffer_size = readSize (expected_payload_size c1);
              c2 = c1\<lparr>read_operation_buffer := resize (unat buffer_size) (read_operation_buffer c1)\<rparr>;
              status = wsa_recv sys (trace (link c2)) buffer_size;
              c3 = c2\<lparr>link := emit (Ev_recv (socket (link c2)) buffer_size status) (link c2)\<rparr>
          in if status = IO_FAILED then on_link (close sys 1006 ''Read error'') c3 else Done c3))"

section \<open>Construction, completion, destruction\<close>

text \<open>\<open>this\<close> is the address of the object, used as its completion key.\<close>

definition newConnection :: "'w sys \<Rightarrow> SOCKET \<Rightarrow> u64 \<Rightarrow> 'w \<Rightarrow> 'w conn outcome" where
  "newConnection sys sock this w =
     asyncRead sys
      \<lparr>link = \<lparr>socket = sock, is_closed = False, socket_mutex = False, callbacks_mutex = False,
               on_message = False, on_close = False, async_ops = [], next_op = 0,
               trace = [Ev_associate sock this], world = w\<rparr>,
       read_operation_buffer = [], fragmented_buffer = [], current_opcode = Continuation,
       read_buffer = [], expected_payload_size = 0\<rparr>"

text \<open>
  A completion names the operation that ended. \<open>ReadDone bs\<close>: the kernel has written \<open>bs\<close> at
  the start of the buffer of the pending read. \<open>WriteDone op n\<close>: \<open>n\<close> bytes of the write \<open>op\<close>
  were sent.
\<close>

datatype completion = ReadDone "byte list" | WriteDone nat nat

fun bytes_transferred :: "completion \<Rightarrow> nat" where
  "bytes_transferred (ReadDone bs) = length bs"
| "bytes_transferred (WriteDone op n) = n"

text \<open>The \<open>unique_ptr\<close> of \<open>handleIOCompletion\<close> deletes the operation at the end of the scope.\<close>

fun releaseOp :: "completion \<Rightarrow> 'w conn \<Rightarrow> 'w conn" where
  "releaseOp (ReadDone bs) c = c"
| "releaseOp (WriteDone op n) c =
     c\<lparr>link := (link c)\<lparr>async_ops := filter (\<lambda>(i, _). i \<noteq> op) (async_ops (link c))\<rparr>\<rparr>"

definition handleIOCompletion :: "'w sys \<Rightarrow> 'w message_cb \<Rightarrow> completion \<Rightarrow> 'w conn \<Rightarrow> 'w conn outcome" where
  "handleIOCompletion sys cb completed c =
     (if is_closed (link c) then Done c
      else on_exit (releaseOp completed)
       (if bytes_transferred completed = 0 then on_link (close sys 1005 ''Connection closed'') c
        else
          catch_exn
           (case completed of
              ReadDone received \<Rightarrow>
                (let c1 = c\<lparr>read_operation_buffer := received\<rparr> in
                 andthen (processData sys cb (read_operation_buffer c1) c1) (asyncRead sys))
            | WriteDone op n \<Rightarrow> Done c)
           (on_link (close sys 1002 ''Protocol error''))))"

definition destroyConnection :: "'w sys \<Rightarrow> 'w conn \<Rightarrow> 'w conn outcome" where
  "destroyConnection sys c = on_link (close sys 1006 ''Connection destroyed'') c"

section \<open>What each operation does to a link\<close>

text \<open>
  One equation per case of \<open>close\<close> and \<open>asyncWrite\<close>: on a closed link, on an open one with
  the mutexes free, and with one of them held by the caller.
\<close>

lemma emit_simps [simp]:
  "socket (emit e l) = socket l" "is_closed (emit e l) = is_closed l"
  "socket_mutex (emit e l) = socket_mutex l" "callbacks_mutex (emit e l) = callbacks_mutex l"
  "on_message (emit e l) = on_message l" "on_close (emit e l) = on_close l"
  "async_ops (emit e l) = async_ops l" "next_op (emit e l) = next_op l"
  "trace (emit e l) = trace l @ [e]" "world (emit e l) = world l"
  by (simp_all add: emit_def)

lemma unlock_simps [simp]:
  "socket (unlock_socket l) = socket l" "is_closed (unlock_socket l) = is_closed l"
  "\<not> socket_mutex (unlock_socket l)" "callbacks_mutex (unlock_socket l) = callbacks_mutex l"
  "on_message (unlock_socket l) = on_message l" "on_close (unlock_socket l) = on_close l"
  "trace (unlock_socket l) = trace l" "world (unlock_socket l) = world l"
  "async_ops (unlock_socket l) = async_ops l" "next_op (unlock_socket l) = next_op l"
  "socket (unlock_callbacks l) = socket l" "is_closed (unlock_callbacks l) = is_closed l"
  "socket_mutex (unlock_callbacks l) = socket_mutex l" "\<not> callbacks_mutex (unlock_callbacks l)"
  "on_message (unlock_callbacks l) = on_message l" "on_close (unlock_callbacks l) = on_close l"
  "trace (unlock_callbacks l) = trace l" "world (unlock_callbacks l) = world l"
  "async_ops (unlock_callbacks l) = async_ops l" "next_op (unlock_callbacks l) = next_op l"
  by (simp_all add: unlock_socket_def unlock_callbacks_def)

lemma close_closed [simp]: "is_closed l \<Longrightarrow> close sys code reason l = Done l"
  by (simp add: close.simps)

lemma asyncWrite_closed [simp]: "is_closed l \<Longrightarrow> asyncWrite sys data l = Done l"
  by (simp add: asyncWrite.simps)

definition closedLink :: "'w sys \<Rightarrow> 'w link \<Rightarrow> 'w link" where
  "closedLink sys l = l\<lparr>is_closed := True, socket := INVALID_SOCKET,
     trace := trace l @ Ev_closesocket (socket l) # (if on_close l then [Ev_closed] else []),
     world := (if on_close l then snd (on_close_cb sys (world l)) else world l)\<rparr>"

text \<open>How closing an open link ends: an exception of the close callback is passed on.\<close>

definition closedOutcome :: "'w sys \<Rightarrow> 'w link \<Rightarrow> 'w link outcome" where
  "closedOutcome sys l =
     (case fst (on_close_cb sys (world l)) of
        Some e \<Rightarrow> if on_close l then Raised e (closedLink sys l) else Done (closedLink sys l)
      | None \<Rightarrow> Done (closedLink sys l))"

lemma closedOutcome_state [simp]: "outcome_state (closedOutcome sys l) = closedLink sys l"
  by (simp add: closedOutcome_def split: option.split)

lemma closedOutcome_quiet: "fst (on_close_cb sys (world l)) = None \<Longrightarrow> closedOutcome sys l = Done (closedLink sys l)"
  by (simp add: closedOutcome_def)

lemma createFrame_Close [simp]:
  "createFrame k Close payload False = Inr (headerBytes k Close (length payload) False @ bytes_of payload)"
  by (simp add: createFrame_def validateOpcode_def headerBytes_def)

lemma close_open:
  assumes "\<not> is_closed l" "\<not> socket_mutex l" "\<not> callbacks_mutex l" "socket l \<noteq> INVALID_SOCKET"
  shows "close sys code reason l = closedOutcome sys l"
proof -
  obtain r w where "on_close_cb sys (world l) = (r, w)" by force
  then show ?thesis
    using assms
    by (cases r) (simp_all add: close.simps Let_def callOnClose_def closedOutcome_def closedLink_def emit_def
        unlock_socket_def unlock_callbacks_def)
qed

lemma close_no_socket:
  assumes "\<not> is_closed l" "\<not> socket_mutex l" "socket l = INVALID_SOCKET"
  shows "close sys code reason l = Done (l\<lparr>is_closed := True\<rparr>)"
  using assms by (simp add: close.simps unlock_socket_def)

lemma close_socket_locked:
  assumes "\<not> is_closed l" "socket_mutex l"
  shows "close sys code reason l = Stuck (l\<lparr>is_closed := True\<rparr>)"
  using assms by (simp add: close.simps)

lemma close_callbacks_locked:
  assumes "\<not> is_closed l" "\<not> socket_mutex l" "callbacks_mutex l" "socket l \<noteq> INVALID_SOCKET"
  shows "close sys code reason l = Stuck (l\<lparr>is_closed := True, socket_mutex := True,
    socket := INVALID_SOCKET, trace := trace l @ [Ev_closesocket (socket l)]\<rparr>)"
  using assms by (simp add: close.simps emit_def)

definition sentLink :: "'w sys \<Rightarrow> byte list \<Rightarrow> 'w link \<Rightarrow> 'w link" where
  "sentLink sys data l = l\<lparr>async_ops := async_ops l @ [(next_op l, data)], next_op := Suc (next_op l),
     trace := trace l @ [Ev_associate (socket l) (key_value WRITE),
       Ev_send (socket l) data (wsa_send sys (trace l @ [Ev_associate (socket l) (key_value WRITE)]) data)]\<rparr>"

definition sendStatus :: "'w sys \<Rightarrow> byte list \<Rightarrow> 'w link \<Rightarrow> io_status" where
  "sendStatus sys data l = wsa_send sys (trace l @ [Ev_associate (socket l) (key_value WRITE)]) data"

lemma asyncWrite_open:
  assumes "\<not> is_closed l" "\<not> socket_mutex l" "socket l \<noteq> INVALID_SOCKET" "sendStatus sys data l \<noteq> IO_FAILED"
  shows "asyncWrite sys data l = Done (sentLink sys data l)"
  using assms
  by (simp add: asyncWrite.simps sentLink_def sendStatus_def Let_def emit_def unlock_socket_def)

lemma asyncWrite_failed:
  assumes "\<not> is_closed l" "\<not> socket_mutex l" "socket l \<noteq> INVALID_SOCKET" "sendStatus sys data l = IO_FAILED"
  shows "\<exists>l'. asyncWrite sys data l = Stuck l' \<and> is_closed l' \<and> socket_mutex l' \<and> socket l' = socket l \<and>
    trace l' = trace l @ [Ev_associate (socket l) (key_value WRITE), Ev_send (socket l) data IO_FAILED]"
  using assms
  by (simp add: asyncWrite.simps sendStatus_def Let_def close_socket_locked)

lemma asyncWrite_no_socket:
  assumes "\<not> is_closed l" "\<not> socket_mutex l" "socket l = INVALID_SOCKET"
  shows "asyncWrite sys data l = Done l"
  using assms by (simp add: asyncWrite.simps unlock_socket_def)

end
