(* ===== verification/Connection_Spec.thy ===== *)
theory Connection_Spec
  imports Connection
begin

text \<open>
  What a connection promises. \<open>processData\<close> is proved to be the abstract reader \<open>streamSpec\<close>:
  take the frames off the byte stream with the decoder \<open>nextFrame\<close> (an instance of the locale
  \<open>stream_decoder\<close>) and handle them in order. So the frames handled do not depend on how TCP
  cut the stream. The second part states invariants of the object between two completions: the
  locale \<open>link_invariant\<close> says which changes an invariant has to survive, the locale \<open>reader\<close>
  extends it by the contract of the user's message callback, and \<open>link_inv\<close> is an instance.
\<close>

section \<open>The connection as a stream decoder\<close>

definition nextFrame :: "FrameHeader \<Rightarrow> byte list \<Rightarrow> (byte, FrameHeader \<times> byte list) decoded" where
  "nextFrame h0 buf =
     (case extractFrame h0 buf of
        NeedHeader \<Rightarrow> Need
      | NeedPayload n \<Rightarrow> Need
      | BadHeader e \<Rightarrow> Bad e
      | Extracted h p rest \<Rightarrow> Got (h, p) rest)"

lemma extractFrame_append:
  "extractFrame h0 buf = Extracted h p rest \<Longrightarrow> extractFrame h0 (buf @ later) = Extracted h p (rest @ later)"
  "extractFrame h0 buf = BadHeader e \<Longrightarrow> extractFrame h0 (buf @ later) = BadHeader e"
  by (auto simp: extractFrame_def Let_def parseHeader_append
      split: sum.splits prod.splits bool.splits if_splits)

interpretation frames: stream_decoder "nextFrame h0" for h0
proof
  fix bs cs :: "byte list" and f :: "FrameHeader \<times> byte list" and rest e
  show "length rest < length bs" if "nextFrame h0 bs = Got f rest"
    using that by (auto simp: nextFrame_def split: extraction.splits dest: extractFrame_shrinks)
  show "nextFrame h0 (bs @ cs) = Got f (rest @ cs)" if "nextFrame h0 bs = Got f rest"
    using that by (auto simp: nextFrame_def extractFrame_append split: extraction.splits)
  show "nextFrame h0 (bs @ cs) = Bad e" if "nextFrame h0 bs = Bad e"
    using that by (auto simp: nextFrame_def extractFrame_append split: extraction.splits)
qed

fun handleFrames :: "'w sys \<Rightarrow> 'w message_cb \<Rightarrow> (FrameHeader \<times> byte list) list \<Rightarrow> 'w link \<Rightarrow> 'w link outcome" where
  "handleFrames sys cb [] l = Done l"
| "handleFrames sys cb ((h, p) # fs) l = andthen (handleFrame sys cb h p l) (handleFrames sys cb fs)"

lemma handleFrames_append:
  "handleFrames sys cb (fs @ gs) l = andthen (handleFrames sys cb fs l) (handleFrames sys cb gs)"
  by (induction fs arbitrary: l) (auto simp: andthen_assoc intro!: andthen_cong)

definition streamSpec :: "'w sys \<Rightarrow> 'w message_cb \<Rightarrow> byte list \<Rightarrow> 'w link \<Rightarrow> 'w link outcome" where
  "streamSpec sys cb bs l =
     (case decodeAll (nextFrame (stack_header sys)) bs of
        (fs, rest, None) \<Rightarrow> handleFrames sys cb fs l
      | (fs, rest, Some e) \<Rightarrow> andthen (handleFrames sys cb fs l) (Raised e))"

lemma map_outcome_on_link:
  "map_outcome link (andthen (on_link f c) g) = andthen (f (link c)) (\<lambda>l. map_outcome link (g (c\<lparr>link := l\<rparr>)))"
  by (cases "f (link c)") (auto simp: on_link_def)

lemma processLoop_link:
  "map_outcome link (processLoop sys cb c) = streamSpec sys cb (read_buffer c) (link c)"
proof (induction "read_buffer c" arbitrary: c rule: frames.stream_induct [of "stack_header sys"])
  case Need
  then show ?case
    by (auto simp: streamSpec_def frames.decodeAll_step processLoop.simps [of sys cb c] nextFrame_def split: extraction.splits)
next
  case (Bad e)
  then show ?case
    by (auto simp: streamSpec_def frames.decodeAll_step processLoop.simps [of sys cb c] nextFrame_def split: extraction.splits)
next
  case (Got f rest)
  obtain h p where f: "f = (h, p)" by force
  with Got(1) have ex: "extractFrame (stack_header sys) (read_buffer c) = Extracted h p rest"
    by (auto simp: nextFrame_def split: extraction.splits)
  have "map_outcome link (processLoop sys cb c) =
    andthen (handleFrame sys cb h p (link c)) (\<lambda>l. streamSpec sys cb rest l)"
    using Got(2) by (simp add: processLoop.simps [of sys cb c] ex map_outcome_on_link)
  then show ?case
    by (auto simp: streamSpec_def frames.decodeAll_Got [OF Got(1)] f andthen_assoc split: prod.splits option.splits)
qed

lemma processLoop_Done:
  "processLoop sys cb c = Done c' \<Longrightarrow>
   \<exists>fs. decodeAll (nextFrame (stack_header sys)) (read_buffer c) = (fs, read_buffer c', None)"
proof (induction "read_buffer c" arbitrary: c rule: frames.stream_induct [of "stack_header sys"])
  case Need
  then show ?case
    by (auto simp: frames.decodeAll_step processLoop.simps [of sys cb c] nextFrame_def split: extraction.splits)
next
  case (Bad e)
  then show ?case
    by (auto simp: processLoop.simps [of sys cb c] nextFrame_def split: extraction.splits)
next
  case (Got f rest)
  obtain h p where f: "f = (h, p)" by force
  with Got(1) have ex: "extractFrame (stack_header sys) (read_buffer c) = Extracted h p rest"
    by (auto simp: nextFrame_def split: extraction.splits)
  then obtain c1 where "on_link (handleFrame sys cb h p) (c\<lparr>read_buffer := rest\<rparr>) = Done c1" and "processLoop sys cb c1 = Done c'"
    using Got(3) by (cases "on_link (handleFrame sys cb h p) (c\<lparr>read_buffer := rest\<rparr>)") (auto simp: processLoop.simps [of sys cb c])
  then show ?case
    using Got(2) [of c1] on_link_Done [of "handleFrame sys cb h p" "c\<lparr>read_buffer := rest\<rparr>" c1]
    by (auto simp: frames.decodeAll_Got [OF Got(1)])
qed

lemma processData_link:
  "map_outcome link (processData sys cb data c) = streamSpec sys cb (read_buffer c @ data) (link c)"
  by (simp add: processData_def processLoop_link)

lemma streamSpec_append:
  "decodeAll (nextFrame (stack_header sys)) bs = (fs, rest, None) \<Longrightarrow>
   streamSpec sys cb (bs @ cs) l = andthen (streamSpec sys cb bs l) (streamSpec sys cb (rest @ cs))"
  by (auto simp: streamSpec_def frames.decodeAll_append_None handleFrames_append andthen_assoc
      intro!: andthen_cong split: prod.splits option.splits)

lemma streamSpec_append_error:
  "decodeAll (nextFrame (stack_header sys)) bs = (fs, rest, Some e) \<Longrightarrow>
   streamSpec sys cb (bs @ cs) l = streamSpec sys cb bs l"
  by (auto simp: streamSpec_def frames.decodeAll_append_Some split: prod.splits option.splits)

fun processChunks :: "'w sys \<Rightarrow> 'w message_cb \<Rightarrow> byte list list \<Rightarrow> 'w conn \<Rightarrow> 'w conn outcome" where
  "processChunks sys cb [] c = Done c"
| "processChunks sys cb (d # ds) c = andthen (processData sys cb d c) (processChunks sys cb ds)"

lemma map_outcome_andthen: "map_outcome f (andthen r g) = (case r of Done s \<Rightarrow> map_outcome f (g s) | Raised e s \<Rightarrow> Raised e (f s) | Stuck s \<Rightarrow> Stuck (f s))"
  by (cases r) auto

lemma processData_Done:
  assumes "processData sys cb xs c = Done c1"
  shows "\<exists>fs. decodeAll (nextFrame (stack_header sys)) (read_buffer c @ xs) = (fs, read_buffer c1, None)"
    and "streamSpec sys cb (read_buffer c @ xs) (link c) = Done (link c1)"
  using assms processLoop_Done [of sys cb "c\<lparr>read_buffer := read_buffer c @ xs\<rparr>" c1]
    processData_link [of sys cb xs c]
  by (simp_all add: processData_def)

lemma processData_append:
  "map_outcome link (processData sys cb (xs @ ys) c) =
   map_outcome link (andthen (processData sys cb xs c) (processData sys cb ys))"
proof -
  let ?nf = "nextFrame (stack_header sys)" and ?bs = "read_buffer c @ xs"
  obtain fs rest e where dec: "decodeAll ?nf ?bs = (fs, rest, e)" by (metis prod_cases3)
  have lhs: "map_outcome link (processData sys cb (xs @ ys) c) =
    (case e of None \<Rightarrow> andthen (streamSpec sys cb ?bs (link c)) (streamSpec sys cb (rest @ ys))
     | Some e' \<Rightarrow> streamSpec sys cb ?bs (link c))"
    using streamSpec_append [of sys ?bs fs rest cb ys "link c"] dec
      streamSpec_append_error [of sys ?bs fs rest _ cb ys "link c"]
    by (simp add: processData_link split: option.split)
  show ?thesis
  proof (cases "processData sys cb xs c")
    case (Done c1)
    then show ?thesis
      using processData_Done [OF Done] dec by (simp only: lhs) (simp add: processData_link)
  next
    case (Raised e' c1)
    then show ?thesis
      using processData_link [of sys cb xs c] by (simp add: lhs split: option.split) (metis andthen.simps(2))
  next
    case (Stuck c1)
    then show ?thesis
      using processData_link [of sys cb xs c] by (simp add: lhs split: option.split) (metis andthen.simps(3))
  qed
qed

lemma processChunks_concat:
  assumes "ds \<noteq> []"
  shows "map_outcome link (processChunks sys cb ds c) = map_outcome link (processData sys cb (concat ds) c)"
  using assms
proof (induction ds arbitrary: c)
  case (Cons d ds)
  show ?case
  proof (cases "ds = []")
    case True
    then show ?thesis by (cases "processData sys cb d c") simp_all
  next
    case False
    then show ?thesis
      using Cons.IH [OF False] processData_append [of sys cb d "concat ds" c]
      by (cases "processData sys cb d c") simp_all
  qed
qed simp

lemma extractFrame_bounds:
  "extractFrame h0 buf = NeedPayload n \<Longrightarrow> n \<le> MAX_FRAME_SIZE"
  by (auto simp: extractFrame_def Let_def parseHeader_iff headerSpec_def wireHeader_def word_le_nat_alt unat_wireLength
      split: sum.splits prod.splits bool.splits if_splits)


section \<open>Invariants of a link, and of the reader above it\<close>

text \<open>
  A link invariant is a predicate that the six ways in which the code changes a link keep:
  closing, closing without a socket, a successful send, a read that is started, a message that
  is delivered, and the release of a finished write. The mutexes are not its business. From
  these checks the locale derives that \<open>close\<close>, \<open>asyncWrite\<close> and the senders keep it.
\<close>

locale link_invariant =
  fixes sys :: "'w sys" and I :: "'w link \<Rightarrow> bool"
  assumes I_socket_mutex: "I (l\<lparr>socket_mutex := b\<rparr>) = I l"
    and I_callbacks_mutex: "I (l\<lparr>callbacks_mutex := b\<rparr>) = I l"
    and I_close: "I l \<Longrightarrow> \<not> is_closed l \<Longrightarrow> socket l \<noteq> INVALID_SOCKET \<Longrightarrow> I (closedLink sys l)"
    and I_flag: "I l \<Longrightarrow> \<not> is_closed l \<Longrightarrow> socket l = INVALID_SOCKET \<Longrightarrow> I (l\<lparr>is_closed := True\<rparr>)"
    and I_send: "I l \<Longrightarrow> \<not> is_closed l \<Longrightarrow> socket l \<noteq> INVALID_SOCKET \<Longrightarrow> I (sentLink sys data l)"
    and I_recv: "I l \<Longrightarrow> \<not> is_closed l \<Longrightarrow> I (emit (Ev_recv s n st) l)"
    and I_message: "I l \<Longrightarrow> I (emit (Ev_message m) l)"
    and I_release: "I l \<Longrightarrow> I (l\<lparr>async_ops := filter p (async_ops l)\<rparr>)"
begin

text \<open>\<open>at b l\<close>: the invariant holds, and of the mutexes only the callbacks' one may be held.\<close>

definition at :: "bool \<Rightarrow> 'w link \<Rightarrow> bool" where
  "at in_callback l \<longleftrightarrow> I l \<and> \<not> socket_mutex l \<and> callbacks_mutex l = in_callback"

lemma at_unlock: "at b l \<Longrightarrow> at False (unlock_callbacks l)"
  by (simp add: at_def unlock_callbacks_def I_callbacks_mutex)

lemma close_at: "at b l \<Longrightarrow> unless_stuck (at b) (close sys code reason l)"
proof -
  assume at: "at b l"
  consider "is_closed l" | "\<not> is_closed l" "socket l = INVALID_SOCKET"
    | "\<not> is_closed l" "socket l \<noteq> INVALID_SOCKET" "b"
    | "\<not> is_closed l" "socket l \<noteq> INVALID_SOCKET" "\<not> b" by blast
  then show ?thesis
  proof cases
    case 4
    then show ?thesis using at I_close
      by (subst close_open) (auto simp: at_def closedOutcome_def split: option.split, auto simp: closedLink_def)
  qed (use at I_flag in \<open>auto simp: at_def close_no_socket close_callbacks_locked\<close>)
qed

lemma asyncWrite_at: "at b l \<Longrightarrow> unless_stuck (at b) (asyncWrite sys data l)"
proof -
  assume at: "at b l"
  then have free: "\<not> socket_mutex l" by (simp add: at_def)
  consider "is_closed l" | "\<not> is_closed l" "socket l = INVALID_SOCKET"
    | "\<not> is_closed l" "socket l \<noteq> INVALID_SOCKET" "sendStatus sys data l = IO_FAILED"
    | "\<not> is_closed l" "socket l \<noteq> INVALID_SOCKET" "sendStatus sys data l \<noteq> IO_FAILED" by blast
  then show ?thesis
  proof cases
    case 3
    then show ?thesis using asyncWrite_failed [of l sys data] free by auto
  next
    case 4
    then show ?thesis using at free I_send
      by (subst asyncWrite_open) (auto simp: at_def, auto simp: sentLink_def)
  qed (use at free in \<open>simp_all add: asyncWrite_no_socket\<close>)
qed

lemma sendFrame_at: "at b l \<Longrightarrow> unless_stuck (at b) (sendFrame sys op payload l)"
  by (auto simp: sendFrame_def asyncWrite_at split: sum.split)

lemma with_callbacks_at:
  assumes "at False l" "\<And>l. at True l \<Longrightarrow> unless_stuck (at True) (body l)"
  shows "unless_stuck (at False) (with_callbacks body l)"
proof -
  have "at True (l\<lparr>callbacks_mutex := True\<rparr>)"
    using assms(1) by (simp add: at_def I_callbacks_mutex)
  then have "unless_stuck (\<lambda>l. at False (unlock_callbacks l)) (body (l\<lparr>callbacks_mutex := True\<rparr>))"
    using assms(2) at_unlock by (blast intro: unless_stuck_mono)
  then show ?thesis by (simp add: with_callbacks_def unless_stuck_on_exit)
qed

text \<open>The whole connection between two completions.\<close>

definition conn_at :: "'w conn \<Rightarrow> bool" where
  "conn_at c \<longleftrightarrow> at False (link c) \<and> expected_payload_size c \<le> MAX_FRAME_SIZE"

lemma on_link_at:
  "conn_at c \<Longrightarrow> (at False (link c) \<Longrightarrow> unless_stuck (at False) (f (link c))) \<Longrightarrow>
   unless_stuck conn_at (on_link f c)"
  by (cases "f (link c)") (auto simp: on_link_def conn_at_def)

lemma asyncRead_at: "conn_at c \<Longrightarrow> unless_stuck conn_at (asyncRead sys c)"
proof -
  assume at: "conn_at c"
  have stuck: "unless_stuck P (on_link (close sys code reason) c)"
    if "socket_mutex (link c)" "\<not> is_closed (link c)" for P code reason and c :: "'w conn"
    using that by (simp add: on_link_def close_socket_locked)
  have recv: "I (unlock_socket (emit (Ev_recv s n st) ((link c)\<lparr>socket_mutex := True\<rparr>)))"
    if "\<not> is_closed (link c)" for s n st
    using that at by (simp add: unlock_socket_def I_socket_mutex I_recv conn_at_def at_def)
  have idle: "I (unlock_socket ((link c)\<lparr>socket_mutex := True\<rparr>))"
    using at by (simp add: unlock_socket_def I_socket_mutex conn_at_def at_def)
  show ?thesis
    using at recv idle unfolding asyncRead_def Let_def
    by (auto intro!: unless_stuck_on_exit stuck simp: conn_at_def at_def)
qed

lemma releaseOp_at: "conn_at c \<Longrightarrow> conn_at (releaseOp completed c)"
  by (cases completed) (auto simp: conn_at_def at_def I_release)

end

text \<open>
  The contract between the reader and the user's message callback: called with the callbacks'
  mutex held, the callback keeps the invariant and gives the mutexes back as they were.
\<close>

locale reader = link_invariant sys I
  for sys :: "'w sys" and I :: "'w link \<Rightarrow> bool" +
  fixes cb :: "string \<Rightarrow> 'w link \<Rightarrow> 'w link outcome"
  assumes cb_at: "at True l \<Longrightarrow> unless_stuck (at True) (cb m l)"
begin

lemma deliver_at: "at True l \<Longrightarrow> unless_stuck (at True) (deliver cb m l)"
  using cb_at [of "emit (Ev_message m) l" m] by (simp add: deliver_def at_def I_message)

lemma handleFrame_at: "at False l \<Longrightarrow> unless_stuck (at False) (handleFrame sys cb h p l)"
  unfolding handleFrame_def
  by (intro unless_stuck_catch [of "at False"])
    (auto split: sum.split Opcode.split intro!: with_callbacks_at deliver_at close_at
      simp: sendPong_def sendFrame_at)

lemma processLoop_at: "conn_at c \<Longrightarrow> unless_stuck conn_at (processLoop sys cb c)"
proof (induction c rule: measure_induct_rule [of "\<lambda>c. length (read_buffer c)"])
  case (less c)
  show ?case
  proof (cases "extractFrame (stack_header sys) (read_buffer c)")
    case (Extracted h p rest)
    let ?r = "on_link (handleFrame sys cb h p) (c\<lparr>read_buffer := rest\<rparr>)"
    have "unless_stuck conn_at ?r"
      using less.prems by (intro on_link_at) (simp_all add: conn_at_def handleFrame_at)
    moreover have "unless_stuck conn_at (processLoop sys cb c')" if "?r = Done c'" "conn_at c'" for c'
      using that extractFrame_shrinks [OF Extracted] by (intro less.IH) (auto dest: on_link_Done)
    ultimately show ?thesis
      by (auto simp: processLoop.simps [of sys cb c] Extracted intro!: unless_stuck_andthen)
  qed (use less.prems extractFrame_bounds in \<open>auto simp: processLoop.simps [of sys cb c] conn_at_def\<close>)
qed

lemma processData_at: "conn_at c \<Longrightarrow> unless_stuck conn_at (processData sys cb data c)"
  unfolding processData_def by (rule processLoop_at) (simp add: conn_at_def)

lemma handleIOCompletion_at:
  assumes "conn_at c"
  shows "unless_stuck conn_at (handleIOCompletion sys cb completed c)"
proof -
  let ?body = "case completed of
      ReadDone received \<Rightarrow> andthen (processData sys cb received (c\<lparr>read_operation_buffer := received\<rparr>)) (asyncRead sys)
    | WriteDone op n \<Rightarrow> Done c"
  have "unless_stuck conn_at ?body"
    using assms by (auto split: completion.split intro!: unless_stuck_andthen [OF processData_at] asyncRead_at
        simp: conn_at_def)
  then have "unless_stuck conn_at (catch_exn ?body (on_link (close sys 1002 ''Protocol error'')))"
    by (rule unless_stuck_catch) (auto intro!: on_link_at close_at)
  moreover have "unless_stuck conn_at (on_link (close sys 1005 ''Connection closed'') c)"
    using assms by (intro on_link_at close_at) auto
  moreover have "unless_stuck conn_at (on_exit (releaseOp completed) r)" if "unless_stuck conn_at r" for r
    using that by (rule unless_stuck_on_exit [OF unless_stuck_mono]) (rule releaseOp_at)
  ultimately show ?thesis
    using assms releaseOp_at [OF assms, of completed]
    by (cases completed) (auto simp: handleIOCompletion_def Let_def)
qed

end

section \<open>The invariant of the traffic\<close>

text \<open>
  \<open>link_inv\<close>: a closed link has no socket; the close callback has run at most once and never on
  an open link; after the socket is closed nothing is sent, received or closed again; and the
  pending writes are distinct heap objects.
\<close>

fun after_close :: "io_event \<Rightarrow> bool" where
  "after_close (Ev_message m) = True"
| "after_close Ev_closed = True"
| "after_close _ = False"

definition socket_closed :: "io_event list \<Rightarrow> bool" where
  "socket_closed tr = list_ex (\<lambda>e. case e of Ev_closesocket s \<Rightarrow> True | _ \<Rightarrow> False) tr"

fun quiet :: "io_event list \<Rightarrow> bool" where
  "quiet [] = True"
| "quiet (e # es) = (if socket_closed [e] then list_all after_close es else quiet es)"

lemma socket_closed_append [simp]: "socket_closed (xs @ ys) = (socket_closed xs \<or> socket_closed ys)"
  by (simp add: socket_closed_def)

lemma socket_closed_simps [simp]:
  "\<not> socket_closed []" "socket_closed (Ev_closesocket s # es)"
  "socket_closed (Ev_associate s k # es) = socket_closed es"
  "socket_closed (Ev_recv s n st # es) = socket_closed es"
  "socket_closed (Ev_send s bs st # es) = socket_closed es"
  "socket_closed (Ev_message m # es) = socket_closed es"
  "socket_closed (Ev_closed # es) = socket_closed es"
  by (simp_all add: socket_closed_def)

lemma quiet_append:
  "quiet (xs @ ys) = (if socket_closed xs then quiet xs \<and> list_all after_close ys else quiet ys)"
  by (induction xs) (auto simp: socket_closed_def)

definition link_inv :: "'w link \<Rightarrow> bool" where
  "link_inv l \<longleftrightarrow>
     (is_closed l \<longrightarrow> socket l = INVALID_SOCKET) \<and>
     (\<not> is_closed l \<longrightarrow> \<not> socket_closed (trace l) \<and> Ev_closed \<notin> set (trace l)) \<and>
     quiet (trace l) \<and> count_list (trace l) Ev_closed \<le> 1 \<and>
     distinct (map fst (async_ops l)) \<and> (\<forall>op \<in> set (async_ops l). fst op < next_op l)"

lemma link_invariant_link_inv: "link_invariant sys link_inv"
  by unfold_locales
    (auto simp: link_inv_def closedLink_def sentLink_def emit_def quiet_append distinct_map_filter)

interpretation traffic: link_invariant sys link_inv for sys
  by (rule link_invariant_link_inv)

end
