(* ===== verification/Connection_Thms.thy ===== *)
theory Connection_Thms
  imports Connection_Spec
begin

text \<open>
  The properties of a connection: how it reads its stream (chunking, delivery), how it answers
  the control frames, what it does when an operation of Winsock fails, and where it differs
  from the protocol it implements.
\<close>

section \<open>Frames that createFrame made\<close>

lemma extractFrame_created:
  assumes "createFrame k op payload m = Inr frame" "length payload \<le> unat MAX_FRAME_SIZE"
  shows "\<exists>h p. extractFrame h0 (frame @ later) = Extracted h p later \<and> fin h \<and> opcode h = op \<and>
    masked h = m \<and> decodePayload h p = Inr payload"
proof -
  let ?h = "frameHeader k op (length payload) m h0"
  have n: "length payload < 2 ^ 64" using assms(2) by (simp add: MAX_FRAME_SIZE_nat)
  then have u: "unat (payload_length ?h) = length payload" by (simp add: unat_of_nat)
  note split = createFrame_split [OF assms(1)] and size = headerSize_frameHeader [OF n]
  let ?p = "if m then masked_bytes k (bytes_of payload) else bytes_of payload"
  have "extractFrame h0 (frame @ later) = Extracted ?h ?p later"
    using parse_created [OF assms, of later h0] u by (simp add: extractFrame_def split size)
  moreover have "decodePayload ?h ?p = Inr payload"
    using decode_masked [of payload ?h] u by (cases m) simp_all
  ultimately show ?thesis by (intro exI [of _ ?h] exI [of _ ?p]) simp
qed

lemma processLoop_frame:
  fixes sys :: "'w sys" and c :: "'w conn"
  assumes "createFrame k op payload m = Inr frame" "length payload \<le> unat MAX_FRAME_SIZE"
    and "read_buffer c = frame @ later"
  obtains h p where "opcode h = op" "decodePayload h p = Inr payload"
    "processLoop sys cb c =
       andthen (on_link (handleFrame sys cb h p) (c\<lparr>read_buffer := later\<rparr>)) (processLoop sys cb)"
proof -
  obtain h p where "extractFrame (stack_header sys) (frame @ later) = Extracted h p later"
    and h: "opcode h = op" "decodePayload h p = Inr payload"
    using extractFrame_created [OF assms(1,2)] by blast
  then have "processLoop sys cb c =
    andthen (on_link (handleFrame sys cb h p) (c\<lparr>read_buffer := later\<rparr>)) (processLoop sys cb)"
    using assms(3) by (simp add: processLoop.simps [of sys cb c])
  with h show ?thesis by (rule that)
qed

lemma processLoop_empty [simp]: "read_buffer c = [] \<Longrightarrow> processLoop sys cb c = Done c"
  by (simp add: processLoop.simps [of sys cb c] extractFrame_def parseHeader_def)

text \<open>An open connection that no thread is working on.\<close>

definition idle :: "'w link \<Rightarrow> bool" where
  "idle l \<longleftrightarrow> \<not> is_closed l \<and> \<not> socket_mutex l \<and> \<not> callbacks_mutex l \<and> socket l \<noteq> INVALID_SOCKET"

section \<open>Messages delivered one after the other\<close>

text \<open>What a client expects of a sequence of text messages: one callback each, in order.\<close>

fun deliverAll :: "'w sys \<Rightarrow> 'w message_cb \<Rightarrow> string list \<Rightarrow> 'w link \<Rightarrow> 'w link outcome" where
  "deliverAll sys cb [] l = Done l"
| "deliverAll sys cb (m # ms) l =
     andthen (catch_exn (with_callbacks (deliver cb m) l) (close sys 1002 ''Protocol error''))
       (deliverAll sys cb ms)"

lemma deliverAll_Nil [simp]: "deliverAll sys cb [] = Done"
  by (rule ext) simp

lemma streamSpec_Got:
  "nextFrame (stack_header sys) bs = Got (h, p) rest \<Longrightarrow>
   streamSpec sys cb bs l = andthen (handleFrame sys cb h p l) (streamSpec sys cb rest)"
  by (auto simp: streamSpec_def frames.decodeAll_Got andthen_assoc intro!: andthen_cong
      split: prod.splits option.splits)

lemma streamSpec_Nil: "streamSpec sys cb [] l = Done l"
  by (simp add: streamSpec_def frames.decodeAll_Need nextFrame_def extractFrame_def parseHeader_def)

lemma streamSpec_texts:
  assumes "list_all2 (\<lambda>(k, m) f. createFrame k Text m True = Inr f \<and> length m \<le> unat MAX_FRAME_SIZE) msgs fs"
  shows "streamSpec sys cb (concat fs) l = deliverAll sys cb (map snd msgs) l"
  using assms
proof (induction msgs fs arbitrary: l rule: list_all2_induct)
  case Nil
  then show ?case by (simp add: streamSpec_Nil)
next
  case (Cons km msgs f fs)
  obtain k m where km: "km = (k, m)" by force
  with Cons have "createFrame k Text m True = Inr f" "length m \<le> unat MAX_FRAME_SIZE" by auto
  from extractFrame_created [OF this, of "stack_header sys" "concat fs"]
  obtain h p where ex: "extractFrame (stack_header sys) (f @ concat fs) = Extracted h p (concat fs)"
    and hp: "opcode h = Text" "decodePayload h p = Inr m" by blast
  have "streamSpec sys cb (f @ concat fs) l = andthen (handleFrame sys cb h p l) (streamSpec sys cb (concat fs))"
    by (rule streamSpec_Got) (simp add: nextFrame_def ex)
  then show ?case by (simp add: km handleFrame_def hp Cons.IH cong: andthen_cong)
qed

section \<open>Exceptions that leave the connection\<close>

text \<open>\<open>raises P r\<close>: if \<open>r\<close> ends with an exception, \<open>P\<close> holds of it.\<close>

fun raises :: "(exn \<Rightarrow> bool) \<Rightarrow> 's outcome \<Rightarrow> bool" where
  "raises P (Raised e s) = P e"
| "raises P r = True"

named_theorems raises_intros \<open>how \<open>raises\<close> passes through the control operators\<close>

lemma raises_ops [raises_intros]:
  "raises P r \<Longrightarrow> raises P (on_exit f r)"
  "raises P q \<Longrightarrow> raises P (on_part put q)"
  "raises P r \<Longrightarrow> (\<And>s. raises P (g s)) \<Longrightarrow> raises P (andthen r g)"
  "raises (\<lambda>e. std_exn e \<or> P e) r \<Longrightarrow> (\<And>s. raises P (h s)) \<Longrightarrow> raises P (catch_exn r h)"
  by (cases r; auto; fail | cases q; auto; fail)+

lemma raises_mono: "raises P q \<Longrightarrow> (\<And>e. P e \<Longrightarrow> Q e) \<Longrightarrow> raises Q q"
  by (cases q) auto

lemma raises_on_link [raises_intros]: "raises P (f (link c)) \<Longrightarrow> raises P (on_link f c)"
  by (simp add: on_link_def raises_ops)

lemma raises_with_callbacks [raises_intros]: "(\<And>l. raises P (body l)) \<Longrightarrow> raises P (with_callbacks body l)"
  by (simp add: with_callbacks_def raises_ops)

text \<open>What the close callback throws, and what the message callback throws past the handlers.\<close>

definition thrown_on_close :: "'w sys \<Rightarrow> exn \<Rightarrow> bool" where
  "thrown_on_close sys e \<longleftrightarrow> (\<exists>w. fst (on_close_cb sys w) = Some e)"

definition thrown_foreign :: "'w message_cb \<Rightarrow> exn \<Rightarrow> bool" where
  "thrown_foreign cb e \<longleftrightarrow> \<not> std_exn e \<and> (\<exists>m l l'. cb m l = Raised e l')"

lemma close_asyncWrite_raises:
  "raises (thrown_on_close sys) (close sys code reason l)"
  "raises (thrown_on_close sys) (asyncWrite sys data l)"
proof (induction sys code reason l and sys data l rule: close_asyncWrite.induct)
  case (1 sys code reason l0)
  have "raises (thrown_on_close sys) (callOnClose sys l)" for l
    by (auto simp: callOnClose_def thrown_on_close_def split: prod.split option.split) (metis fst_conv)
  moreover have "raises (thrown_on_close sys) (asyncWrite sys frame ((l0\<lparr>is_closed := True\<rparr>)\<lparr>socket_mutex := True\<rparr>))" for frame
    by simp
  ultimately show ?case
    by (simp add: close.simps [of sys code reason l0] Let_def raises_ops)
next
  case (2 sys data l0)
  then show ?case by (auto simp: asyncWrite.simps [of sys data l0] Let_def intro!: raises_intros)
qed

text \<open>The errors of the frame functions are standard exceptions.\<close>

lemma frame_errors:
  "decodePayload h p = Inl e \<Longrightarrow> std_exn e" "createFrame k op payload m = Inl e \<Longrightarrow> std_exn e"
  "extractFrame h0 buf = BadHeader e \<Longrightarrow> std_exn e"
  by (auto simp: decodePayload_def createFrame_def validateOpcode_def extractFrame_def parseHeader_def parseTail_def Let_def
      split: if_splits sum.splits prod.splits bool.splits Opcode.splits)

lemma sendPong_raises: "raises (\<lambda>e. std_exn e \<or> thrown_on_close sys e) (sendPong sys m l)"
proof -
  have "raises (\<lambda>e. std_exn e \<or> thrown_on_close sys e) (asyncWrite sys frame l)" for frame
    by (rule raises_mono [OF close_asyncWrite_raises(2)]) simp
  then show ?thesis by (auto simp: sendPong_def sendFrame_def frame_errors(2) split: sum.split)
qed

definition thrown_outside :: "'w sys \<Rightarrow> 'w message_cb \<Rightarrow> exn \<Rightarrow> bool" where
  "thrown_outside sys cb e \<longleftrightarrow> thrown_on_close sys e \<or> thrown_foreign cb e"

lemma close_raises: "raises (thrown_outside sys cb) (close sys code reason l)"
  by (rule raises_mono [OF close_asyncWrite_raises(1)]) (simp add: thrown_outside_def)

lemma deliver_raises: "raises (\<lambda>e. std_exn e \<or> thrown_outside sys cb e) (deliver cb m l)"
  by (cases "cb m (emit (Ev_message m) l)") (auto simp: deliver_def thrown_outside_def thrown_foreign_def)

lemma handleFrame_raises: "raises (thrown_outside sys cb) (handleFrame sys cb header payload l)"
proof -
  have pong: "raises (\<lambda>e. std_exn e \<or> thrown_outside sys cb e) (sendPong sys m l)" for m l
    by (rule raises_mono [OF sendPong_raises]) (auto simp: thrown_outside_def)
  have shut: "raises (\<lambda>e. std_exn e \<or> thrown_outside sys cb e) (close sys code reason l)" for code reason l
    by (rule raises_mono [OF close_raises [of sys cb]]) simp
  show ?thesis
    unfolding handleFrame_def
    by (rule raises_ops(4)) (auto simp: frame_errors(1) pong shut deliver_raises close_raises
        intro!: raises_with_callbacks split: sum.split Opcode.split)
qed

lemma processLoop_raises: "raises (\<lambda>e. std_exn e \<or> thrown_outside sys cb e) (processLoop sys cb c)"
proof (induction sys cb c rule: processLoop.induct)
  case (1 sys cb c)
  have handle: "raises (\<lambda>e. std_exn e \<or> thrown_outside sys cb e) (on_link (handleFrame sys cb h p) c')" for h p c'
    by (rule raises_on_link, rule raises_mono [OF handleFrame_raises [of sys cb]]) simp
  show ?case
  proof (cases "extractFrame (stack_header sys) (read_buffer c)")
    case (BadHeader e)
    then show ?thesis by (simp add: processLoop.simps [of sys cb c] frame_errors(3))
  next
    case (Extracted h p rest)
    show ?thesis
    proof (cases "on_link (handleFrame sys cb h p) (c\<lparr>read_buffer := rest\<rparr>)")
      case (Done c1)
      then show ?thesis using 1 [OF Extracted] Extracted by (simp add: processLoop.simps [of sys cb c])
    next
      case (Raised e c1)
      then show ?thesis using handle [of h p "c\<lparr>read_buffer := rest\<rparr>"] Extracted by (simp add: processLoop.simps [of sys cb c])
    next
      case (Stuck c1)
      then show ?thesis using Extracted by (simp add: processLoop.simps [of sys cb c])
    qed
  qed (simp_all add: processLoop.simps [of sys cb c])
qed

lemma asyncRead_raises: "raises (\<lambda>e. std_exn e \<or> thrown_outside sys cb e) (asyncRead sys c)"
proof -
  have "raises (\<lambda>e. std_exn e \<or> thrown_outside sys cb e) (on_link (close sys code reason) c')" for code reason c'
    by (rule raises_on_link, rule raises_mono [OF close_raises [of sys cb]]) simp
  then show ?thesis by (simp add: asyncRead_def Let_def raises_ops)
qed

lemma handleIOCompletion_raises: "raises (thrown_outside sys cb) (handleIOCompletion sys cb completed c)"
proof -
  have body: "raises (\<lambda>e. std_exn e \<or> thrown_outside sys cb e)
      (case completed of
         ReadDone received \<Rightarrow>
           (let c1 = c\<lparr>read_operation_buffer := received\<rparr> in
            andthen (processData sys cb (read_operation_buffer c1) c1) (asyncRead sys))
       | WriteDone op n \<Rightarrow> Done c)"
    by (auto simp: processData_def Let_def processLoop_raises asyncRead_raises intro: raises_ops(3) split: completion.split)
  have "raises (thrown_outside sys cb) (on_link (close sys code reason) c')" for code reason c'
    by (rule raises_on_link [OF close_raises])
  then show ?thesis
    by (auto simp: handleIOCompletion_def intro!: raises_ops(1) raises_ops(4) [OF body])
qed

section \<open>A connection to try things on\<close>

definition pendingNet :: "'w sys" where
  "pendingNet = \<lparr>wsa_recv = \<lambda>tr n. IO_PENDING, wsa_send = \<lambda>tr bs. IO_PENDING, on_close_cb = Pair None,
     random_mask = 0, stack_header = \<lparr>fin = False, opcode = Continuation, masked = False,
       payload_length = 0, masking_key = 0\<rparr>\<rparr>"

definition openConn :: "unit conn" where
  "openConn = \<lparr>link = \<lparr>socket = 7, is_closed = False, socket_mutex = False, callbacks_mutex = False,
       on_message = True, on_close = True, async_ops = [], next_op = 0, trace = [], world = ()\<rparr>,
     read_operation_buffer = [], fragmented_buffer = [], current_opcode = Continuation,
     read_buffer = [], expected_payload_size = 0\<rparr>"

lemma openConn_idle [simp]: "idle (link openConn)" "read_buffer openConn = []"
  "socket (link openConn) = 7" "on_close (link openConn)" "trace (link openConn) = []"
  "\<not> callbacks_mutex (link openConn)"
  by (simp_all add: idle_def openConn_def INVALID_SOCKET_def)

definition hiFrame :: "byte list" where
  "hiFrame = [0x81, 0x82, 1, 2, 3, 4, 73, 107]"

lemma createFrame_hi: "createFrame 0x01020304 Text ''Hi'' True = Inr hiFrame"
  by code_simp

section \<open>Properties\<close>

text \<open>
  C14. How TCP cuts the byte stream does not matter: calling \<open>processData\<close> on the pieces one
  after the other has the effect on the link (messages delivered, frames sent, exceptions) of
  one call on all the bytes.
\<close>

theorem stream_chunking:
  assumes "chunks \<noteq> []"
  shows "map_outcome link (processChunks sys cb chunks c) =
    map_outcome link (processData sys cb (concat chunks) c)"
  using assms by (rule processChunks_concat)

theorem stream_chunking_witness:
  "map_outcome link (processChunks pendingNet (\<lambda>m l. Done l) [[0x81], [2, 72], [105]] openConn) =
   map_outcome link (processData pendingNet (\<lambda>m l. Done l) [0x81, 2, 72, 105] openConn)"
  using stream_chunking [of "[[0x81], [2, 72], [105]]" pendingNet "\<lambda>m l. Done l" openConn] by simp

text \<open>
  C3. Text messages framed by a masking client with \<open>createFrame\<close> arrive as they were sent, in
  order and once each, however the stream is cut: the effect is that of calling the user's
  message callback on each message in turn.
\<close>

theorem stream_delivers_messages:
  assumes "list_all2 (\<lambda>(k, m) f. createFrame k Text m True = Inr f \<and> length m \<le> unat MAX_FRAME_SIZE) msgs fs"
    and "concat chunks = concat fs" and "chunks \<noteq> []" and "read_buffer c = []"
  shows "map_outcome link (processChunks sys cb chunks c) = deliverAll sys cb (map snd msgs) (link c)"
  using assms by (simp add: processChunks_concat processData_link streamSpec_texts)

theorem stream_delivers_messages_witness:
  "map_outcome link (processChunks pendingNet (\<lambda>m l. Done l) [[0x81], [0x82, 1, 2, 3, 4, 73], [107]] openConn) =
   deliverAll pendingNet (\<lambda>m l. Done l) [''Hi''] (link openConn)"
  using stream_delivers_messages [of "[(0x01020304, ''Hi'')]" "[hiFrame]"
      "[[0x81], [0x82, 1, 2, 3, 4, 73], [107]]" openConn pendingNet "\<lambda>m l. Done l"]
  by (simp add: MAX_FRAME_SIZE_nat createFrame_hi hiFrame_def)



text \<open>
  Closing an open connection closes its socket and calls the close callback, once: a second
  call changes nothing. No byte is sent: the close frame that \<open>close\<close> builds is given to
  \<open>asyncWrite\<close> after the closed flag is set, which drops it. So no peer ever receives the close
  code or the reason.
\<close>

theorem close_never_sends:
  assumes "idle l" and "fst (on_close_cb sys (world l)) = None"
  shows "\<exists>l'. close sys code reason l = Done l' \<and> is_closed l' \<and> socket l' = INVALID_SOCKET \<and>
    trace l' = trace l @ Ev_closesocket (socket l) # (if on_close l then [Ev_closed] else []) \<and>
    close sys code' reason' l' = Done l'"
  using assms by (intro exI [of _ "closedLink sys l"]) (simp add: idle_def close_open closedOutcome_quiet, simp add: closedLink_def)

theorem close_never_sends_witness:
  "\<exists>l'. close pendingNet 1001 ''Going away'' (link openConn) = Done l' \<and>
     trace l' = [Ev_closesocket 7, Ev_closed]"
  using close_never_sends [of "link openConn" pendingNet 1001 "''Going away''" 1000 "[]"]
  by (auto simp: pendingNet_def)

text \<open>
  C38. A close frame from the peer hangs the worker thread: \<open>handleFrame\<close> holds
  \<open>callbacks_mutex_\<close> when it calls \<open>close\<close>, which locks it again. The socket is closed, both
  mutexes stay locked, and the close callback is not called.
\<close>

theorem close_frame_deadlocks:
  assumes "createFrame k Close payload m = Inr frame" and "length payload \<le> unat MAX_FRAME_SIZE"
    and "idle (link c)" and "read_buffer c = []"
  shows "\<exists>c'. processData sys cb (frame @ later) c = Stuck c' \<and> is_closed (link c') \<and>
    socket_mutex (link c') \<and> callbacks_mutex (link c') \<and> world (link c') = world (link c) \<and>
    trace (link c') = trace (link c) @ [Ev_closesocket (socket (link c))]"
proof -
  let ?c = "c\<lparr>read_buffer := frame @ later\<rparr>"
  obtain h p where h: "opcode h = Close" "decodePayload h p = Inr payload"
    and loop: "processLoop sys cb ?c =
      andthen (on_link (handleFrame sys cb h p) (?c\<lparr>read_buffer := later\<rparr>)) (processLoop sys cb)"
    by (rule processLoop_frame [OF assms(1,2), of ?c later sys cb]) simp_all
  have "\<exists>l'. handleFrame sys cb h p (link c) = Stuck l' \<and> is_closed l' \<and> socket_mutex l' \<and>
    callbacks_mutex l' \<and> world l' = world (link c) \<and>
    trace l' = trace (link c) @ [Ev_closesocket (socket (link c))]"
    using assms(3) by (simp add: handleFrame_def h with_callbacks_def idle_def close_callbacks_locked)
  then show ?thesis using loop assms(4) by (auto simp: processData_def on_link_def)
qed

theorem close_frame_deadlocks_witness:
  "\<exists>c'. processData pendingNet (\<lambda>m l. Done l) [0x88, 0] openConn = Stuck c' \<and> callbacks_mutex (link c')"
proof -
  have "createFrame 0 Close [] False = Inr [0x88, 0]" by code_simp
  from close_frame_deadlocks [OF this, of openConn pendingNet "\<lambda>m l. Done l" "[]"]
  show ?thesis by auto
qed

text \<open>
  C39. One failed call of Winsock hangs the thread that made it: on an open connection that no thread
  works on, \<open>asyncRead\<close> whose \<open>WSARecv\<close> fails, and \<open>asyncWrite\<close> whose \<open>WSASend\<close> fails, hold
  \<open>socket_mutex_\<close> when they call \<open>close\<close>, which locks it again. The socket stays open, the close
  callback does not run, and the trace ends with the failed call. Other calls may succeed.
\<close>

theorem failed_io_deadlocks:
  assumes "idle (link c)"
  shows "(wsa_recv sys (trace (link c)) (readSize (expected_payload_size c)) = IO_FAILED \<longrightarrow>
      (\<exists>c'. asyncRead sys c = Stuck c' \<and> is_closed (link c') \<and> socket_mutex (link c') \<and> socket (link c') = socket (link c) \<and>
        trace (link c') = trace (link c) @ [Ev_recv (socket (link c)) (readSize (expected_payload_size c)) IO_FAILED])) \<and>
    (sendStatus sys data (link c) = IO_FAILED \<longrightarrow>
      (\<exists>l'. asyncWrite sys data (link c) = Stuck l' \<and> is_closed l' \<and> socket_mutex l' \<and> socket l' = socket (link c) \<and>
        trace l' = trace (link c) @ [Ev_associate (socket (link c)) (key_value WRITE), Ev_send (socket (link c)) data IO_FAILED]))"
proof (intro conjI impI)
  note idle = assms [unfolded idle_def]
  show "\<exists>c'. asyncRead sys c = Stuck c' \<and> is_closed (link c') \<and> socket_mutex (link c') \<and> socket (link c') = socket (link c) \<and>
      trace (link c') = trace (link c) @ [Ev_recv (socket (link c)) (readSize (expected_payload_size c)) IO_FAILED]"
    if "wsa_recv sys (trace (link c)) (readSize (expected_payload_size c)) = IO_FAILED"
    using idle that by (simp add: asyncRead_def Let_def on_link_def close_socket_locked)
  show "\<exists>l'. asyncWrite sys data (link c) = Stuck l' \<and> is_closed l' \<and> socket_mutex l' \<and> socket l' = socket (link c) \<and>
      trace l' = trace (link c) @ [Ev_associate (socket (link c)) (key_value WRITE), Ev_send (socket (link c)) data IO_FAILED]"
    if "sendStatus sys data (link c) = IO_FAILED"
    using asyncWrite_failed [of "link c"] idle that by blast
qed

text \<open>A system in which only the second receive fails: the connection is made, and its next read hangs.\<close>

definition flakyNet :: "unit sys" where
  "flakyNet = pendingNet\<lparr>wsa_recv := \<lambda>tr n. if \<exists>e \<in> set tr. \<exists>s k st. e = Ev_recv s k st then IO_FAILED else IO_PENDING\<rparr>"

theorem failed_io_deadlocks_witness:
  "\<exists>c c'. newConnection flakyNet 7 64 () = Done c \<and> asyncRead flakyNet c = Stuck c' \<and> socket_mutex (link c') \<and> socket (link c') = 7"
proof -
  obtain c where c: "newConnection flakyNet 7 64 () = Done c" "idle (link c)" "socket (link c) = 7"
    "trace (link c) = [Ev_associate 7 64, Ev_recv 7 (readSize (expected_payload_size c)) IO_PENDING]"
    by (simp add: newConnection_def asyncRead_def flakyNet_def pendingNet_def idle_def INVALID_SOCKET_def Let_def)
  have "wsa_recv flakyNet (trace (link c)) (readSize (expected_payload_size c)) = IO_FAILED"
    by (simp add: flakyNet_def c(4))
  with failed_io_deadlocks [OF c(2), of flakyNet] c(1,3) show ?thesis by auto
qed

text \<open>
  A ping is answered by a pong with the same payload, and the connection stays open and
  free.
\<close>

theorem ping_pong:
  assumes "createFrame k Ping payload m = Inr frame" and "length payload \<le> unat MAX_FRAME_SIZE"
    and "idle (link c)" and "read_buffer c = []"
    and "\<And>tr data. wsa_send sys tr data \<noteq> IO_FAILED"
  shows "\<exists>c'. processData sys cb frame c = Done c' \<and> read_buffer c' = [] \<and> idle (link c') \<and>
    (\<exists>pong st. createFrame (random_mask sys) Pong payload False = Inr pong \<and>
      trace (link c') = trace (link c) @
        [Ev_associate (socket (link c)) (key_value WRITE), Ev_send (socket (link c)) pong st])"
proof -
  let ?c = "c\<lparr>read_buffer := frame\<rparr>"
  obtain pong where pong: "createFrame (random_mask sys) Pong payload False = Inr pong"
    by (simp add: createFrame_def validateOpcode_def)
  obtain h p where h: "opcode h = Ping" "decodePayload h p = Inr payload"
    and loop: "processLoop sys cb ?c =
      andthen (on_link (handleFrame sys cb h p) (?c\<lparr>read_buffer := []\<rparr>)) (processLoop sys cb)"
    by (rule processLoop_frame [OF assms(1,2), of ?c "[]" sys cb]) simp_all
  have st: "sendStatus sys pong l \<noteq> IO_FAILED" for l using assms(5) by (simp add: sendStatus_def)
  define l' where "l' = unlock_callbacks (sentLink sys pong ((link c)\<lparr>callbacks_mutex := True\<rparr>))"
  have "handleFrame sys cb h p (link c) = Done l'"
    using assms(3) st by (simp add: handleFrame_def h with_callbacks_def idle_def sendPong_def sendFrame_def pong
        asyncWrite_open l'_def)
  moreover have "idle l'" using assms(3) by (simp add: idle_def l'_def sentLink_def)
  moreover have "trace l' = trace (link c) @ [Ev_associate (socket (link c)) (key_value WRITE),
     Ev_send (socket (link c)) pong (wsa_send sys (trace (link c) @ [Ev_associate (socket (link c)) (key_value WRITE)]) pong)]"
    by (simp add: l'_def sentLink_def)
  ultimately show ?thesis using loop assms(4) pong by (auto simp: processData_def on_link_def)
qed

theorem ping_pong_witness:
  "\<exists>c'. processData pendingNet (\<lambda>m l. Done l) [0x89, 1, 65] openConn = Done c' \<and> idle (link c')"
proof -
  have "createFrame 0 Ping ''A'' False = Inr [0x89, 1, 65]" by code_simp
  from ping_pong [OF this, of openConn pendingNet "\<lambda>m l. Done l"]
  show ?thesis by (auto simp: MAX_FRAME_SIZE_nat pendingNet_def)
qed

text \<open>
  A binary frame whose short length is written in the 16-bit form is taken apart wrongly:
  \<open>headerSize\<close> computes two bytes of header instead of four, so the message starts with the two
  length bytes, and its last two bytes are left to be read as the header of the next frame.
\<close>

theorem long_form_corrupts:
  assumes "2 \<le> length payload" and "length payload \<le> 125"
  shows "extractFrame h0 ([0x82, 126, 0, word_of_nat (length payload)] @ payload @ later) =
    Extracted (h0\<lparr>fin := True, opcode := Binary, masked := False, payload_length := word_of_nat (length payload)\<rparr>)
      ([0, word_of_nat (length payload)] @ take (length payload - 2) payload)
      (drop (length payload - 2) payload @ later)"
proof -
  let ?n = "length payload" and ?data = "[0x82, 126, 0, word_of_nat (length payload)] @ payload @ later"
  let ?h = "h0\<lparr>fin := True, opcode := Binary, masked := False, payload_length := word_of_nat (length payload)\<rparr>"
  have "unat (word_of_nat ?n :: byte) = ?n" using assms by (simp add: unat_of_nat)
  then have c: "(ucast (word_of_nat ?n :: byte) :: u64) = word_of_nat ?n"
    by (metis of_nat_unat)
  have u: "unat (word_of_nat ?n :: u64) = ?n" using assms by (simp add: unat_of_nat)
  have small: "\<not> MAX_FRAME_SIZE < word_of_nat ?n" "\<not> 126 \<le> (word_of_nat ?n :: u64)"
    using assms u by (auto simp: word_less_nat_alt word_le_nat_alt MAX_FRAME_SIZE_nat)
  have "parseHeader ?data h0 = Inr (True, ?h)"
    using small by (simp add: parseHeader_def parseTail_def opcode_of_byte_def c)
  moreover have "headerSize ?h = 2" using small by (simp add: headerSize_def)
  moreover obtain n where "?n = Suc (Suc n)" using assms(1) by (metis Suc_le_D numeral_2_eq_2 Suc_le_mono)
  ultimately show ?thesis using u by (simp add: extractFrame_def)
qed

theorem long_form_corrupts_witness:
  "\<forall>h0. \<exists>h. extractFrame h0 [0x82, 126, 0, 3, 65, 66, 67] = Extracted h [0, 3, 65] [66, 67]"
  using long_form_corrupts [of "[65, 66, 67]" _ "[]"] by auto

text \<open>
  Fragmented messages are not put together: a text frame is delivered as a whole message
  whether or not its \<open>fin\<close> bit is set, and a continuation frame is dropped.
\<close>

theorem fragments_not_reassembled:
  assumes "decodePayload h p = Inr m" and "\<not> callbacks_mutex l"
  shows "handleFrame sys cb (h\<lparr>fin := b, opcode := Text\<rparr>) p l = deliverAll sys cb [m] l \<and>
    handleFrame sys cb (h\<lparr>fin := b, opcode := Continuation\<rparr>) p l = Done l"
proof -
  have "decodePayload (h\<lparr>fin := b, opcode := op\<rparr>) p = Inr m" for op
    using assms(1) by (auto simp: decodePayload_def split: if_splits)
  then show ?thesis
    using assms(2) by (simp add: handleFrame_def with_callbacks_def unlock_callbacks_def)
qed

theorem fragments_not_reassembled_witness:
  "\<forall>cb. handleFrame pendingNet cb \<lparr>fin = False, opcode = Text, masked = False, payload_length = 2, masking_key = 0\<rparr>
      [72, 105] (link openConn) = deliverAll pendingNet cb [''Hi''] (link openConn)"
proof -
  have "decodePayload \<lparr>fin = False, opcode = Text, masked = False, payload_length = 2, masking_key = 0\<rparr>
    [72, 105] = Inr ''Hi''" by code_simp
  from fragments_not_reassembled [OF this, of "link openConn" pendingNet _ False] show ?thesis by simp
qed

text \<open>
  The receive buffer is between 8 KiB and 16 MiB, and large enough for the rest of the frame
  that is expected and its header unless the 16 MiB bound cuts it.
\<close>

theorem readSize_bounds:
  assumes "expected \<le> MAX_FRAME_SIZE"
  shows "8192 \<le> readSize expected \<and> readSize expected \<le> MAX_FRAME_SIZE \<and>
    (unat expected + 14 \<le> unat MAX_FRAME_SIZE \<longrightarrow> unat expected + 14 \<le> unat (readSize expected))"
proof -
  have "unat expected \<le> 16777216" using assms by (simp add: word_le_nat_alt MAX_FRAME_SIZE_nat)
  then have "unat (expected + MAX_HEADER_SIZE) = unat expected + 14"
    by (simp add: MAX_HEADER_SIZE_def unat_word_ariths)
  then show ?thesis
    by (auto simp: readSize_def min_def max_def word_le_nat_alt MAX_FRAME_SIZE_nat)
qed

theorem readSize_bounds_witness: "8192 \<le> readSize 100000 \<and> 100014 \<le> unat (readSize 100000)"
  using readSize_bounds [of 100000] by (simp add: word_le_nat_alt MAX_FRAME_SIZE_nat)

end
