(* ===== verification/Step_Systems.thy ===== *)
theory Step_Systems
  imports Main
begin

text \<open>
  Contracts of step relations, used by the parts of the program whose threads interleave:
  \<open>invariant\<close> (what holds at the start and survives every step holds whenever the system can
  be observed), \<open>measured\<close> (every move makes a measure smaller, which bounds the number of moves),
  \<open>progress\<close> (a system that can always move until its goal, and whose every
  move makes a measure smaller, reaches the goal on every schedule), and \<open>trace_refinement\<close> (a
  system whose labelled steps do what an abstract machine does on the labels).
\<close>

locale step_invariant =
  fixes step :: "'s \<Rightarrow> 's \<Rightarrow> bool" and I :: "'s \<Rightarrow> bool"
  assumes I_step: "I s \<Longrightarrow> step s t \<Longrightarrow> I t"
begin

lemma I_steps: "step\<^sup>*\<^sup>* s t \<Longrightarrow> I s \<Longrightarrow> I t"
  by (induction rule: rtranclp_induct) (auto intro: I_step)

end

locale measured = step_invariant step I
  for step :: "'s \<Rightarrow> 's \<Rightarrow> bool" and I :: "'s \<Rightarrow> bool" +
  fixes work :: "'s \<Rightarrow> nat"
  assumes decreases: "I s \<Longrightarrow> step s t \<Longrightarrow> work t < work s"
begin

lemma steps_bounded: "(step ^^ k) s t \<Longrightarrow> I s \<Longrightarrow> I t \<and> k + work t \<le> work s"
proof (induction k arbitrary: t)
  case (Suc k)
  then obtain u where "(step ^^ k) s u" "step u t" by auto
  with Suc show ?case using decreases [of u t] I_step [of u t] by fastforce
qed simp

end

locale progress = measured step I work
  for step :: "'s \<Rightarrow> 's \<Rightarrow> bool" and I :: "'s \<Rightarrow> bool" and goal :: "'s \<Rightarrow> bool" and work :: "'s \<Rightarrow> nat" +
  assumes enabled: "I s \<Longrightarrow> \<not> goal s \<Longrightarrow> \<exists>t. step s t"
begin

lemma reaches_goal: "I s \<Longrightarrow> \<exists>t. step\<^sup>*\<^sup>* s t \<and> goal t"
proof (induction s rule: measure_induct_rule [of work])
  case (less s)
  show ?case
  proof (cases "goal s")
    case False
    then obtain t where "step s t" using enabled less.prems by blast
    moreover from this obtain u where "step\<^sup>*\<^sup>* t u" "goal u"
      using less.IH [of t] decreases I_step less.prems by blast
    ultimately show ?thesis by (meson converse_rtranclp_into_rtranclp)
  qed blast
qed

text \<open>No schedule runs for ever, and none gets stuck before the goal.\<close>

lemma every_run_ends: "I s \<Longrightarrow> step\<^sup>*\<^sup>* s t \<Longrightarrow> \<nexists>u. step t u \<Longrightarrow> goal t"
  using enabled I_steps by blast

end

text \<open>An abstract machine run over events, with what it puts out; runs of labelled steps.\<close>

fun machine_run :: "('e \<Rightarrow> 'a \<Rightarrow> 'a \<times> 'o list) \<Rightarrow> 'e list \<Rightarrow> 'a \<Rightarrow> 'a \<times> 'o list" where
  "machine_run f [] a = (a, [])"
| "machine_run f (e # es) a = (case f e a of (b, xs) \<Rightarrow> case machine_run f es b of (c, ys) \<Rightarrow> (c, xs @ ys))"

lemma machine_run_append:
  "machine_run f (es @ fs) a = (case machine_run f es a of (b, xs) \<Rightarrow> case machine_run f fs b of (c, ys) \<Rightarrow> (c, xs @ ys))"
  by (induction es arbitrary: a) (simp_all split: prod.split)

inductive labelled_run :: "('s \<Rightarrow> 'e list \<Rightarrow> 's \<Rightarrow> bool) \<Rightarrow> 's \<Rightarrow> 'e list \<Rightarrow> 's \<Rightarrow> bool" for step where
  here: "labelled_run step s [] s"
| move: "labelled_run step s es t \<Longrightarrow> step t fs u \<Longrightarrow> labelled_run step s (es @ fs) u"

lemma labelled_run_one: "step s es t \<Longrightarrow> labelled_run step s es t"
  using labelled_run.move [OF labelled_run.here, of step s es t] by simp

lemma labelled_run_trans:
  "labelled_run step t fs u \<Longrightarrow> labelled_run step s es t \<Longrightarrow> labelled_run step s (es @ fs) u"
proof (induction rule: labelled_run.induct)
  case (move t fs u gs v)
  then show ?case using labelled_run.move [of step s "es @ fs" u gs v] by simp
qed simp

locale trace_refinement =
  fixes step :: "'s \<Rightarrow> 'e list \<Rightarrow> 's \<Rightarrow> bool" and I :: "'s \<Rightarrow> bool"
    and abs :: "'s \<Rightarrow> 'a" and seen :: "'s \<Rightarrow> 'o list" and spec :: "'e \<Rightarrow> 'a \<Rightarrow> 'a \<times> 'o list"
  assumes I_keeps: "I s \<Longrightarrow> step s es t \<Longrightarrow> I t"
    and simulates: "I s \<Longrightarrow> step s es t \<Longrightarrow> \<exists>xs. machine_run spec es (abs s) = (abs t, xs) \<and> seen t = seen s @ xs"
begin

lemma I_run: "labelled_run step s es t \<Longrightarrow> I s \<Longrightarrow> I t"
  by (induction rule: labelled_run.induct) (auto intro: I_keeps)

lemma refines:
  assumes "labelled_run step s es t" and "I s"
  shows "\<exists>xs. machine_run spec es (abs s) = (abs t, xs) \<and> seen t = seen s @ xs"
  using assms
proof (induction rule: labelled_run.induct)
  case (move s es t fs u)
  then obtain xs where "machine_run spec es (abs s) = (abs t, xs)" "seen t = seen s @ xs" by blast
  moreover obtain ys where "machine_run spec fs (abs t) = (abs u, ys)" "seen u = seen t @ ys"
    using simulates [OF I_run [OF move.hyps(1) move.prems] move.hyps(2)] by blast
  ultimately show ?case by (simp add: machine_run_append)
qed simp

end

end
