(* ===== verification/Iocp_Thms.thy ===== *)
theory Iocp_Thms
  imports Iocp Step_Systems
begin

text \<open>
  What the completion-port core promises: packets go to the callback of their key, \<open>stop\<close> lets
  no worker begin a callback after the flag is cleared, and \<open>stop\<close> returns on every schedule.
\<close>

section \<open>Workers and packets after stop\<close>

definition waiting :: "'s port_sys \<Rightarrow> nat" where
  "waiting \<sigma> = length (filter (\<lambda>w. w = Waiting) (threads \<sigma>))"

fun promised :: "stopper \<Rightarrow> nat" where
  "promised (Posting n) = n"
| "promised _ = 0"

lemma length_filter_update:
  "i < length xs \<Longrightarrow> length (filter P (xs[i := x])) + (if P (xs ! i) then 1 else 0) =
   length (filter P xs) + (if P x then 1 else 0)"
proof (induction xs arbitrary: i)
  case (Cons y xs)
  then show ?case by (cases i) auto
qed simp

lemma sum_list_update_add:
  "i < length xs \<Longrightarrow> sum_list (map f (xs[i := x])) + f (xs ! i) = sum_list (map f xs) + (f x :: nat)"
proof (induction xs arbitrary: i)
  case (Cons y xs)
  then show ?case by (cases i) auto
qed simp

lemma set_thread_simps [simp]:
  "core (set_thread i w \<sigma>) = core \<sigma>" "io_port (set_thread i w \<sigma>) = io_port \<sigma>"
  "threads (set_thread i w \<sigma>) = (threads \<sigma>)[i := w]" "stopping (set_thread i w \<sigma>) = stopping \<sigma>"
  "app (set_thread i w \<sigma>) = app \<sigma>" "crashed (set_thread i w \<sigma>) = crashed \<sigma>"
  by (simp_all add: set_thread_def)

text \<open>How a worker step can go, one case per line of the loop.\<close>

lemma worker_step_cases [consumes 1, case_names test pop retest run]:
  assumes "worker_step i \<sigma> = Some \<tau>"
  obtains "threads \<sigma> ! i = Testing" "\<tau> = set_thread i (if iocp_running (core \<sigma>) then Waiting else Returned) \<sigma>"
  | p ps where "threads \<sigma> ! i = Waiting" "io_port \<sigma> = p # ps" "\<tau> = set_thread i (Popped p) (\<sigma>\<lparr>io_port := ps\<rparr>)"
  | p where "threads \<sigma> ! i = Popped p"
      "\<tau> = set_thread i (if iocp_running (core \<sigma>) then Dispatching p else Returned) \<sigma>"
  | p where "threads \<sigma> ! i = Dispatching p" "\<not> (locks p \<and> iocp_mutex (core \<sigma>))"
      "\<tau> = dispatched i p (dispatch (core \<sigma>) p (app \<sigma>)) \<sigma>"
  using assms by (auto simp: worker_step_def split: worker.splits list.splits if_splits)

lemma stop_step_cases [consumes 1, case_names clear post posted joined]:
  assumes "stop_step \<sigma> = Some \<tau>"
  obtains "stopping \<sigma> = Not_stopping" "iocp_running (core \<sigma>)"
      "\<tau> = \<sigma>\<lparr>core := (core \<sigma>)\<lparr>iocp_running := False\<rparr>, stopping := Posting (iocp_workers (core \<sigma>))\<rparr>"
  | n where "stopping \<sigma> = Posting (Suc n)"
      "\<tau> = \<sigma>\<lparr>io_port := io_port \<sigma> @ [postedPacket 0 0 0], stopping := Posting n\<rparr>"
  | "stopping \<sigma> = Posting 0" "\<tau> = \<sigma>\<lparr>stopping := Joining\<rparr>"
  | "stopping \<sigma> = Joining" "list_all (\<lambda>w. w = Returned) (threads \<sigma>)"
      "\<tau> = \<sigma>\<lparr>core := (core \<sigma>)\<lparr>iocp_handle := INVALID_HANDLE_VALUE\<rparr>, stopping := Stopped\<rparr>"
  using assms by (auto simp: stop_step_def postCompletion_def split: stopper.splits nat.splits if_splits)

inductive_cases iocp_stepE: "iocp_step \<sigma> \<tau>"
inductive_cases kernel_stepE: "kernel_step \<sigma> \<tau>"

text \<open>
  The bookkeeping of the port: there is one thread per counted worker; once \<open>stop\<close> has cleared
  the flag, the packets in the queue and those still to be posted are enough to wake every
  worker that waits; the mutex is only held by a worker that hangs.
\<close>

definition same_callbacks :: "'s iocp \<Rightarrow> 's iocp \<Rightarrow> bool" where
  "same_callbacks io io' \<longleftrightarrow>
     connection_cb io = connection_cb io' \<and> read_cb io = read_cb io' \<and> write_cb io = write_cb io'"

definition port_inv :: "'s iocp \<Rightarrow> 's port_sys \<Rightarrow> bool" where
  "port_inv io \<sigma> \<longleftrightarrow>
     length (threads \<sigma>) = iocp_workers (core \<sigma>) \<and>
     (iocp_running (core \<sigma>) \<longleftrightarrow> stopping \<sigma> = Not_stopping) \<and>
     (\<not> iocp_running (core \<sigma>) \<longrightarrow> waiting \<sigma> \<le> length (io_port \<sigma>) + promised (stopping \<sigma>)) \<and>
     (iocp_mutex (core \<sigma>) \<longrightarrow> Hung \<in> set (threads \<sigma>)) \<and>
     (stopping \<sigma> = Stopped \<longrightarrow> list_all (\<lambda>w. w = Returned) (threads \<sigma>)) \<and>
     same_callbacks (core \<sigma>) io"

lemma dispatch_same: "same_callbacks io io' \<Longrightarrow> dispatch io p s = dispatch io' p s"
  unfolding dispatch_def same_callbacks_def by (elim conjE) (simp only:)

lemma Returned_update: "list_all (\<lambda>w. w = Returned) ws \<Longrightarrow> i < length ws \<Longrightarrow> ws ! i = Returned"
  by (simp add: list_all_length)

lemma Hung_update: "Hung \<in> set ws \<Longrightarrow> ws ! i \<noteq> Hung \<Longrightarrow> i < length ws \<Longrightarrow> Hung \<in> set (ws[i := w])"
  by (metis in_set_conv_nth length_list_update nth_list_update_neq)

lemma port_inv_worker:
  assumes "port_inv io \<sigma>" "i < length (threads \<sigma>)" "worker_step i \<sigma> = Some \<tau>"
  shows "port_inv io \<tau>"
  using assms(3)
proof (cases rule: worker_step_cases)
  case test
  then show ?thesis
    using assms(1,2) length_filter_update [OF assms(2), of "\<lambda>w. w = Waiting" "if iocp_running (core \<sigma>) then Waiting else Returned"]
    by (auto simp: port_inv_def waiting_def Hung_update dest: Returned_update split: if_splits)
next
  case (pop p ps)
  then show ?thesis
    using assms(1,2) length_filter_update [OF assms(2), of "\<lambda>w. w = Waiting" "Popped p"]
    by (auto simp: port_inv_def waiting_def Hung_update dest: Returned_update split: if_splits)
next
  case (retest p)
  then show ?thesis
    using assms(1,2) length_filter_update [OF assms(2), of "\<lambda>w. w = Waiting" "if iocp_running (core \<sigma>) then Dispatching p else Returned"]
    by (auto simp: port_inv_def waiting_def Hung_update dest: Returned_update split: if_splits)
next
  case (run p)
  then show ?thesis
    using assms(1,2) length_filter_update [OF assms(2), of "\<lambda>w. w = Waiting" Testing]
      length_filter_update [OF assms(2), of "\<lambda>w. w = Waiting" Hung] set_update_memI [OF assms(2), of Hung]
    by (cases "dispatch (core \<sigma>) p (app \<sigma>)")
      (auto simp: port_inv_def waiting_def Hung_update same_callbacks_def dest: Returned_update split: if_splits)
qed

lemma port_inv_stop: "port_inv io \<sigma> \<Longrightarrow> stop_step \<sigma> = Some \<tau> \<Longrightarrow> port_inv io \<tau>"
proof (erule stop_step_cases)
qed (auto simp: port_inv_def waiting_def same_callbacks_def intro: order_trans [OF length_filter_le])

lemma port_inv_step: "port_inv io \<sigma> \<Longrightarrow> iocp_step \<sigma> \<tau> \<Longrightarrow> port_inv io \<tau>"
  by (erule iocp_stepE) (auto intro: port_inv_worker port_inv_stop)

lemma port_inv_kernel: "port_inv io \<sigma> \<Longrightarrow> kernel_step \<sigma> \<tau> \<Longrightarrow> port_inv io \<tau>"
  by (auto elim!: kernel_stepE simp: port_inv_def waiting_def)

definition fresh_core :: "'s iocp \<Rightarrow> bool" where
  "fresh_core io \<longleftrightarrow> iocp_workers io = 0 \<and> \<not> iocp_mutex io"

lemma port_inv_reach: "port_reach (started n io s) \<sigma> \<Longrightarrow> fresh_core io \<Longrightarrow> port_inv io \<sigma>"
proof (induction rule: port_reach.induct)
  case start
  then show ?case
    by (simp add: port_inv_def started_def runWorkerThreads_def fresh_core_def same_callbacks_def)
qed (auto intro: port_inv_step port_inv_kernel)

section \<open>Progress of stop\<close>

definition total_callbacks :: "'s iocp \<Rightarrow> bool" where
  "total_callbacks io \<longleftrightarrow> (\<forall>p s. \<exists>s'. dispatch io p s = Done s')"

definition stop_inv :: "'s iocp \<Rightarrow> 's port_sys \<Rightarrow> bool" where
  "stop_inv io \<sigma> \<longleftrightarrow> total_callbacks io \<and> port_inv io \<sigma> \<and> stopping \<sigma> \<noteq> Not_stopping \<and>
     Hung \<notin> set (threads \<sigma>) \<and> \<not> crashed \<sigma>"

fun thread_work :: "worker \<Rightarrow> nat" where
  "thread_work Waiting = 2"
| "thread_work (Dispatching p) = 2"
| "thread_work Testing = 1"
| "thread_work (Popped p) = 1"
| "thread_work _ = 0"

fun stopper_work :: "stopper \<Rightarrow> nat" where
  "stopper_work (Posting n) = n + 2"
| "stopper_work Joining = 1"
| "stopper_work _ = 0"

definition stop_work :: "'s port_sys \<Rightarrow> nat" where
  "stop_work \<sigma> = sum_list (map thread_work (threads \<sigma>)) + stopper_work (stopping \<sigma>)"

lemma total_dispatch:
  assumes "total_callbacks io" "same_callbacks (core \<sigma>) io"
  obtains s where "dispatch (core \<sigma>) p (app \<sigma>) = Done s"
  using assms dispatch_same [of "core \<sigma>" io p "app \<sigma>"] by (auto simp: total_callbacks_def)

lemma stop_inv_worker:
  assumes "stop_inv io \<sigma>" "i < length (threads \<sigma>)" "worker_step i \<sigma> = Some \<tau>"
  shows "stop_inv io \<tau> \<and> stop_work \<tau> < stop_work \<sigma>"
proof -
  have inv: "port_inv io \<tau>" "\<not> iocp_running (core \<sigma>)" "same_callbacks (core \<sigma>) io" "total_callbacks io"
    using assms port_inv_worker [of io \<sigma> i \<tau>] by (auto simp: stop_inv_def port_inv_def)
  note work = sum_list_update_add [OF assms(2), of thread_work]
  have no_hung: "Hung \<notin> set ((threads \<sigma>)[i := w])" if "w \<noteq> Hung" for w
    using assms(1) that set_update_subset_insert [of "threads \<sigma>" i w] by (auto simp: stop_inv_def)
  from assms(3) show ?thesis
  proof (cases rule: worker_step_cases)
    case test
    then show ?thesis using inv assms(1) work [of Returned] no_hung by (simp add: stop_inv_def stop_work_def)
  next
    case (pop p ps)
    then show ?thesis using inv assms(1) work [of "Popped p"] no_hung by (simp add: stop_inv_def stop_work_def)
  next
    case (retest p)
    then show ?thesis using inv assms(1) work [of Returned] no_hung by (simp add: stop_inv_def stop_work_def)
  next
    case (run p)
    obtain s where "dispatch (core \<sigma>) p (app \<sigma>) = Done s" by (rule total_dispatch [OF inv(4,3)])
    with run show ?thesis using inv assms(1) work [of Testing] no_hung by (simp add: stop_inv_def stop_work_def)
  qed
qed

lemma stop_inv_stop:
  assumes "stop_inv io \<sigma>" "stop_step \<sigma> = Some \<tau>"
  shows "stop_inv io \<tau> \<and> stop_work \<tau> < stop_work \<sigma>"
proof -
  have "port_inv io \<tau>" using assms port_inv_stop by (auto simp: stop_inv_def)
  with assms(2,1) show ?thesis
    by (cases rule: stop_step_cases) (simp_all add: stop_inv_def stop_work_def)
qed

lemma stop_inv_step: "stop_inv io \<sigma> \<Longrightarrow> iocp_step \<sigma> \<tau> \<Longrightarrow> stop_inv io \<tau> \<and> stop_work \<tau> < stop_work \<sigma>"
  by (erule iocp_stepE) (erule (2) stop_inv_worker, erule (1) stop_inv_stop)

lemma worker_enabled:
  assumes "stop_inv io \<sigma>" "i < length (threads \<sigma>)" "threads \<sigma> ! i \<noteq> Returned"
    and "threads \<sigma> ! i = Waiting \<Longrightarrow> io_port \<sigma> \<noteq> []"
  shows "\<exists>\<tau>. worker_step i \<sigma> = Some \<tau>"
proof -
  have "threads \<sigma> ! i \<noteq> Hung" "\<not> iocp_mutex (core \<sigma>)"
    using assms(1) nth_mem [OF assms(2)] by (auto simp: stop_inv_def port_inv_def)
  then show ?thesis
    using assms(3,4) by (auto simp: worker_step_def split: worker.split list.split)
qed

lemma stop_enabled:
  assumes "stop_inv io \<sigma>" "stopping \<sigma> \<noteq> Stopped"
  shows "\<exists>\<tau>. iocp_step \<sigma> \<tau>"
proof (cases "stopping \<sigma> = Joining \<and> \<not> list_all (\<lambda>w. w = Returned) (threads \<sigma>)")
  case True
  then obtain i where i: "i < length (threads \<sigma>)" "threads \<sigma> ! i \<noteq> Returned"
    by (auto simp: list_all_length)
  have "io_port \<sigma> \<noteq> []" if "threads \<sigma> ! i = Waiting"
  proof -
    have "0 < waiting \<sigma>"
      using that i(1) nth_mem [OF i(1)] by (auto simp: waiting_def filter_empty_conv)
    then show ?thesis using assms(1) True by (auto simp: stop_inv_def port_inv_def)
  qed
  then show ?thesis using worker_enabled [OF assms(1) i] assms(1) i(1)
    by (auto simp: stop_inv_def intro: iocp_step.worker)
next
  case False
  then have "\<exists>\<tau>. stop_step \<sigma> = Some \<tau>"
    using assms by (auto simp: stop_inv_def stop_step_def split: stopper.split nat.split)
  then show ?thesis using assms(1) by (auto simp: stop_inv_def intro: iocp_step.stop)
qed

interpretation shutdown: progress iocp_step "stop_inv io" "\<lambda>\<sigma>. stopping \<sigma> = Stopped" stop_work for io
  by unfold_locales (blast dest: stop_inv_step stop_enabled)+

text \<open>Once \<open>stop\<close> has begun, every schedule ends, and ends well.\<close>

lemma stop_inv_ends:
  assumes inv: "stop_inv io \<sigma>"
  shows "(\<exists>\<tau>. iocp_step\<^sup>*\<^sup>* \<sigma> \<tau> \<and> stopping \<tau> = Stopped) \<and>
    (\<forall>\<tau>. iocp_step\<^sup>*\<^sup>* \<sigma> \<tau> \<longrightarrow> (\<exists>\<upsilon>. iocp_step \<tau> \<upsilon>) \<or> stopping \<tau> = Stopped \<and> list_all (\<lambda>w. w = Returned) (threads \<tau>)) \<and>
    (\<forall>k \<tau>. (iocp_step ^^ k) \<sigma> \<tau> \<longrightarrow> k \<le> stop_work \<sigma>)"
proof (intro conjI allI impI)
  show "\<exists>\<tau>. iocp_step\<^sup>*\<^sup>* \<sigma> \<tau> \<and> stopping \<tau> = Stopped" by (rule shutdown.reaches_goal [OF inv])
  show "k \<le> stop_work \<sigma>" if "(iocp_step ^^ k) \<sigma> \<tau>" for k \<tau>
    using shutdown.steps_bounded [OF that inv] by simp
  show "(\<exists>\<upsilon>. iocp_step \<tau> \<upsilon>) \<or> stopping \<tau> = Stopped \<and> list_all (\<lambda>w. w = Returned) (threads \<tau>)"
    if "iocp_step\<^sup>*\<^sup>* \<sigma> \<tau>" for \<tau>
    using shutdown.every_run_ends [OF inv that] shutdown.I_steps [OF that inv]
    by (auto simp: stop_inv_def port_inv_def)
qed

section \<open>Nobody hangs when the callbacks return\<close>

definition alive :: "'s iocp \<Rightarrow> 's port_sys \<Rightarrow> bool" where
  "alive io \<sigma> \<longleftrightarrow> port_inv io \<sigma> \<and> Hung \<notin> set (threads \<sigma>) \<and> \<not> crashed \<sigma>"

lemma alive_worker:
  assumes "alive io \<sigma>" "total_callbacks io" "i < length (threads \<sigma>)" "worker_step i \<sigma> = Some \<tau>"
  shows "alive io \<tau>"
proof -
  have inv: "port_inv io \<tau>" "same_callbacks (core \<sigma>) io"
    using assms port_inv_worker [of io \<sigma> i \<tau>] by (auto simp: alive_def port_inv_def)
  have no_hung: "Hung \<notin> set ((threads \<sigma>)[i := w])" if "w \<noteq> Hung" for w
    using assms(1) that set_update_subset_insert [of "threads \<sigma>" i w] by (auto simp: alive_def)
  from assms(4) show ?thesis
  proof (cases rule: worker_step_cases)
    case (run p)
    obtain s where "dispatch (core \<sigma>) p (app \<sigma>) = Done s"
      by (rule total_dispatch [OF assms(2) inv(2)])
    with run show ?thesis using inv assms(1) no_hung by (simp add: alive_def)
  qed (use inv assms(1) no_hung in \<open>simp_all add: alive_def\<close>)
qed

lemma alive_stop:
  assumes "alive io \<sigma>" "stop_step \<sigma> = Some \<tau>"
  shows "alive io \<tau>"
proof -
  have "port_inv io \<tau>" using assms port_inv_stop by (auto simp: alive_def)
  with assms(2,1) show ?thesis by (cases rule: stop_step_cases) (simp_all add: alive_def)
qed

lemma alive_reach:
  "port_reach (started n io s) \<sigma> \<Longrightarrow> fresh_core io \<Longrightarrow> total_callbacks io \<Longrightarrow> alive io \<sigma>"
proof (induction rule: port_reach.induct)
  case start
  then show ?case
    using port_inv_reach [OF port_reach.start, of io n s]
    by (auto simp: alive_def started_def)
next
  case (step \<sigma> \<tau>)
  then show ?case by (auto elim!: iocp_stepE intro: alive_worker alive_stop)
next
  case (kernel \<sigma> \<tau>)
  then show ?case using port_inv_kernel [of io \<sigma> \<tau>] by (auto elim!: kernel_stepE simp: alive_def)
qed

lemma stop_inv_reach:
  "port_reach (started n io s) \<sigma> \<Longrightarrow> fresh_core io \<Longrightarrow> total_callbacks io \<Longrightarrow>
   stopping \<sigma> \<noteq> Not_stopping \<Longrightarrow> stop_inv io \<sigma>"
  using alive_reach [of n io s \<sigma>] by (auto simp: stop_inv_def alive_def)

section \<open>Callbacks after stop\<close>

text \<open>How many workers have passed the second test of the flag and stand before their callback.\<close>

definition dispatching :: "'s port_sys \<Rightarrow> nat" where
  "dispatching \<sigma> = (if crashed \<sigma> then 0 else length (filter (\<lambda>w. \<exists>p. w = Dispatching p) (threads \<sigma>)))"

text \<open>\<open>runs\<close> reads off the state of the callbacks how often they have been called.\<close>

definition counts :: "('s \<Rightarrow> nat) \<Rightarrow> 's iocp \<Rightarrow> bool" where
  "counts runs io \<longleftrightarrow> (\<forall>p s. runs (outcome_state (dispatch io p s)) \<le> runs s + 1)"

lemma after_stop_step:
  assumes "iocp_step \<sigma> \<tau>" "\<not> iocp_running (core \<sigma>)" "counts runs (core \<sigma>)"
  shows "\<not> iocp_running (core \<tau>) \<and> counts runs (core \<tau>) \<and> runs (app \<tau>) + dispatching \<tau> \<le> runs (app \<sigma>) + dispatching \<sigma>"
  using assms(1)
proof cases
  case (worker i)
  note filtered = length_filter_update [OF worker(2), of "\<lambda>w. \<exists>p. w = Dispatching p"]
  from worker(3) show ?thesis
  proof (cases rule: worker_step_cases)
    case test
    then show ?thesis using assms(2,3) filtered [of Returned] by (simp add: dispatching_def)
  next
    case (pop p ps)
    then show ?thesis using assms(2,3) filtered [of "Popped p"] by (simp add: dispatching_def)
  next
    case (retest p)
    then show ?thesis using assms(2,3) filtered [of Returned] by (simp add: dispatching_def)
  next
    case (run p)
    have more: "runs (outcome_state (dispatch (core \<sigma>) p (app \<sigma>))) \<le> runs (app \<sigma>) + 1"
      using assms(3) by (simp add: counts_def)
    have same: "counts runs ((core \<sigma>)\<lparr>iocp_mutex := True\<rparr>)"
      using assms(3) dispatch_same [of "(core \<sigma>)\<lparr>iocp_mutex := True\<rparr>" "core \<sigma>"]
      by (simp add: counts_def same_callbacks_def)
    show ?thesis
    proof (cases "dispatch (core \<sigma>) p (app \<sigma>)")
      case (Done s)
      then show ?thesis using run more assms(2,3) worker(1) filtered [of Testing] by (simp add: dispatching_def)
    next
      case (Raised e s)
      have "threads \<sigma> ! i \<in> set (filter (\<lambda>w. \<exists>p. w = Dispatching p) (threads \<sigma>))" using run(1) nth_mem [OF worker(2)] by simp
      then have "1 \<le> length (filter (\<lambda>w. \<exists>p. w = Dispatching p) (threads \<sigma>))" by (cases "filter (\<lambda>w. \<exists>p. w = Dispatching p) (threads \<sigma>)") auto
      then show ?thesis using Raised run more assms(2,3) worker(1) by (simp add: dispatching_def)
    next
      case (Stuck s)
      then show ?thesis using run more assms(2) same worker(1) filtered [of Hung] by (simp add: dispatching_def)
    qed
  qed
next
  case stop
  have same: "counts runs ((core \<sigma>)\<lparr>iocp_handle := h\<rparr>)" for h
    using assms(3) dispatch_same [of "(core \<sigma>)\<lparr>iocp_handle := h\<rparr>" "core \<sigma>"]
    by (simp add: counts_def same_callbacks_def)
  from stop(2) show ?thesis using assms(2,3) same by (cases rule: stop_step_cases) (auto simp: dispatching_def)
qed

section \<open>Properties\<close>

text \<open>
  A completed operation goes to the callback of its key with the number of bytes, a failed
  one to the callback of its key with the error code; a failed accept, and a packet without an
  operation, go to nobody.
\<close>

theorem dispatch_by_key:
  "dispatch io \<lparr>pk_ok = b, pk_bytes = n, pk_key = key_value t, pk_overlapped = ov, pk_error = e\<rparr> s =
     (if ov = 0 \<or> \<not> b \<and> t = CONNECTION then Done s
      else case (case t of CONNECTION \<Rightarrow> connection_cb io | READ \<Rightarrow> read_cb io | WRITE \<Rightarrow> write_cb io) of
             None \<Rightarrow> Done s
           | Some f \<Rightarrow> f (if b then n else e) (key_value t) ov s)"
  by (cases t) (simp_all add: dispatch_def key_type_def invoke_def split: option.split)

text \<open>
  The key of a connection's socket is the address of the \<open>WebSocketConnection\<close>, which is
  aligned to a word. No such key is one of the three known ones, so the workers drop every
  completion of the connection's reads: \<open>handleIOCompletion\<close> is never called.
\<close>

theorem connection_key_never_dispatched:
  assumes "8 dvd unat (pk_key p)"
  shows "dispatch io p s = Done s"
proof -
  have "8 dvd unat (ucast (pk_key p) :: u32)"
    using assms by (simp add: unsigned_ucast_eq take_bit_eq_mod dvd_mod_iff)
  then have "key_type (pk_key p) = None"
    unfolding key_type_def Let_def by (auto split: if_splits)
  moreover have "pk_key p \<noteq> key_value t" for t using assms by (cases t) auto
  then have "pk_key p \<noteq> key_value READ" "pk_key p \<noteq> key_value WRITE" by blast+
  ultimately show ?thesis by (simp del: key_value.simps add: dispatch_def)
qed

theorem connection_key_never_dispatched_witness:
  "dispatch (newIocp\<lparr>read_cb := Some (\<lambda>n k ov s. Done (n # s))\<rparr>)
     \<lparr>pk_ok = True, pk_bytes = 5, pk_key = 0x7FF600001000, pk_overlapped = 0x7FF600001010, pk_error = 0\<rparr> [] = Done []"
  by (rule connection_key_never_dispatched) simp

text \<open>
  C20. Callbacks after \<open>stop\<close>. From any moment at which the flag is cleared, on every schedule and
  whatever the kernel completes, at most as many callbacks run as there are workers that had
  passed the second test of the flag by then. The bound is reached: these workers do run theirs.
\<close>

theorem callbacks_after_stop:
  assumes "port_reach \<sigma> \<tau>" and "\<not> iocp_running (core \<sigma>)" and "counts runs (core \<sigma>)"
  shows "runs (app \<tau>) + dispatching \<tau> \<le> runs (app \<sigma>) + dispatching \<sigma>"
proof -
  from assms have "\<not> iocp_running (core \<tau>) \<and> counts runs (core \<tau>) \<and> runs (app \<tau>) + dispatching \<tau> \<le> runs (app \<sigma>) + dispatching \<sigma>"
  proof (induction rule: port_reach.induct)
    case (step \<tau> \<upsilon>)
    then show ?case using after_stop_step [OF step.hyps(2), of runs] by auto
  next
    case (kernel \<tau> \<upsilon>)
    then show ?case by (auto elim!: kernel_stepE simp: dispatching_def)
  qed simp
  then show ?thesis by blast
qed

text \<open>Two workers when the flag is cleared, one past the second test and one that will meet it; both move on.\<close>

theorem callbacks_after_stop_witness:
  "\<exists>\<sigma> \<tau>. port_reach \<sigma> \<tau> \<and> \<not> iocp_running (core \<sigma>) \<and> app \<sigma> = (0 :: nat) \<and> app \<tau> = 1 \<and>
     app \<tau> + dispatching \<tau> \<le> app \<sigma> + dispatching \<sigma> \<and> threads \<tau> = [Testing, Returned]"
proof -
  let ?p = "\<lparr>pk_ok = True, pk_bytes = 1, pk_key = key_value READ, pk_overlapped = 8, pk_error = 0\<rparr>"
  let ?io = "newIocp\<lparr>read_cb := Some (\<lambda>n k ov s. Done (Suc s)), iocp_workers := 2\<rparr>"
  let ?\<sigma> = "\<lparr>core = ?io, io_port = [], threads = [Dispatching ?p, Popped ?p], stopping = Posting 2, app = 0, crashed = False\<rparr>"
  let ?\<sigma>1 = "?\<sigma>\<lparr>threads := [Testing, Popped ?p], app := 1\<rparr>"
  let ?\<tau> = "?\<sigma>1\<lparr>threads := [Testing, Returned]\<rparr>"
  have "worker_step 0 ?\<sigma> = Some ?\<sigma>1"
    by (simp add: worker_step_def set_thread_def dispatch_def invoke_def key_type_def newIocp_def)
  then have 1: "iocp_step ?\<sigma> ?\<sigma>1" by (intro iocp_step.worker [where i = 0]) simp_all
  have "worker_step 1 ?\<sigma>1 = Some ?\<tau>" by (simp add: worker_step_def set_thread_def newIocp_def)
  then have 2: "iocp_step ?\<sigma>1 ?\<tau>" by (intro iocp_step.worker [where i = 1]) simp_all
  have reach: "port_reach ?\<sigma> ?\<tau>" by (rule port_reach.step [OF port_reach.step [OF port_reach.start 1] 2])
  have "counts id (core ?\<sigma>)"
    by (auto simp: counts_def dispatch_def invoke_def newIocp_def split: option.split CompletionKeyType.split)
  from callbacks_after_stop [OF reach _ this] reach show ?thesis
    by (intro exI [of _ ?\<sigma>] exI [of _ ?\<tau>]) (simp add: newIocp_def)
qed

text \<open>
  C11. \<open>stop\<close> returns. When the callbacks return, then from every state in which \<open>stop\<close> has begun
  the workers and \<open>stop\<close> reach the end of \<open>stop\<close>; no schedule of them gets stuck before, and
  none takes more than \<open>stop_work\<close> steps. One packet posted per worker is enough.
\<close>

theorem stop_returns:
  assumes "port_reach (started n io s) \<sigma>" and "fresh_core io" and "total_callbacks io"
    and "stopping \<sigma> \<noteq> Not_stopping"
  shows "(\<exists>\<tau>. iocp_step\<^sup>*\<^sup>* \<sigma> \<tau> \<and> stopping \<tau> = Stopped) \<and>
    (\<forall>\<tau>. iocp_step\<^sup>*\<^sup>* \<sigma> \<tau> \<longrightarrow> (\<exists>\<upsilon>. iocp_step \<tau> \<upsilon>) \<or> stopping \<tau> = Stopped \<and> list_all (\<lambda>w. w = Returned) (threads \<tau>)) \<and>
    (\<forall>k \<tau>. (iocp_step ^^ k) \<sigma> \<tau> \<longrightarrow> k \<le> stop_work \<sigma>)"
  by (rule stop_inv_ends [OF stop_inv_reach [OF assms]])

theorem stop_returns_witness:
  "\<exists>\<tau>. iocp_step\<^sup>*\<^sup>* ((started 2 newIocp ())\<lparr>core := (runWorkerThreads 2 newIocp)\<lparr>iocp_running := False\<rparr>,
      stopping := Posting 2\<rparr>) \<tau> \<and> stopping \<tau> = Stopped"
proof -
  let ?\<sigma> = "(started 2 newIocp ())\<lparr>core := (runWorkerThreads 2 newIocp)\<lparr>iocp_running := False\<rparr>, stopping := Posting 2\<rparr>"
  have "iocp_step (started 2 newIocp ()) ?\<sigma>"
    by (rule iocp_step.stop) (simp_all add: started_def stop_step_def runWorkerThreads_def newIocp_def)
  then have reach: "port_reach (started 2 newIocp ()) ?\<sigma>" by (rule port_reach.step [OF port_reach.start])
  have "total_callbacks (newIocp :: unit iocp)"
    by (auto simp: total_callbacks_def dispatch_def invoke_def newIocp_def split: option.split CompletionKeyType.split)
  from stop_returns [OF reach _ this] show ?thesis by (simp add: fresh_core_def newIocp_def)
qed

end
