(* ===== verification/Server.thy ===== *)
theory Server
  imports Connection_Thms Iocp_Thms
begin

text \<open>
  The server, \<open>src/cool_server/server.h\<close>, \<open>server.cpp\<close> and \<open>run.cpp\<close>.

  Connections are heap objects behind a \<open>shared_ptr\<close>: \<open>objects\<close> is the heap, and a client is
  named by its place there. The callbacks of a connection work on what they capture of the
  server (\<open>view\<close>: the set of clients and the output); it is the \<open>world\<close> of the link while an
  operation of the connection runs, and is put back afterwards.
\<close>

section \<open>State\<close>

record view =
  clients :: "nat set"
  done_calls :: history

record server =
  srv_port :: int
  listen_socket :: SOCKET
  srv_running :: bool
  server_view :: view
  objects :: "nat \<Rightarrow> view conn option"
  next_id :: nat

definition newServer :: "int \<Rightarrow> server" where
  "newServer p = \<lparr>srv_port = p, listen_socket = INVALID_SOCKET, srv_running = False,
     server_view = \<lparr>clients = {}, done_calls = []\<rparr>, objects = (\<lambda>_. None), next_id = 0\<rparr>"

text \<open>
  What the server needs of the machine: Winsock as the wrappers call it, Winsock and the random
  numbers as each connection meets them, and the addresses of the connections.
\<close>

record machine =
  winsock_of :: winsock
  net_of :: "nat \<Rightarrow> view sys"
  address_of :: "nat \<Rightarrow> u64"

definition print_line :: "string \<Rightarrow> view \<Rightarrow> view" where
  "print_line s v = v\<lparr>done_calls := done_calls v @ [Cout (s @ [CHR 0x0A])]\<rparr>"

section \<open>The callbacks of a client\<close>

definition handleClientDisconnect :: "nat \<Rightarrow> view \<Rightarrow> view" where
  "handleClientDisconnect i v =
     (let v1 = v\<lparr>clients := clients v - {i}\<rparr> in
      print_line (''Client disconnected. Total clients: '' @ to_string (card (clients v1))) v1)"

definition client_sys :: "machine \<Rightarrow> nat \<Rightarrow> view sys" where
  "client_sys m i = (net_of m i)\<lparr>on_close_cb := \<lambda>v. (None, handleClientDisconnect i v)\<rparr>"

definition handleClientMessage :: "machine \<Rightarrow> nat \<Rightarrow> string \<Rightarrow> view link \<Rightarrow> view link outcome" where
  "handleClientMessage m i message l =
     sendText (client_sys m i) (''Echo: '' @ message)
       (l\<lparr>world := print_line (''Received: '' @ message) (world l)\<rparr>)"

section \<open>Connections on the heap\<close>

definition put_object :: "nat \<Rightarrow> server \<Rightarrow> view conn \<Rightarrow> server" where
  "put_object i s c = s\<lparr>objects := (objects s)(i \<mapsto> c), server_view := world (link c)\<rparr>"

definition with_object :: "nat \<Rightarrow> (view conn \<Rightarrow> view conn outcome) \<Rightarrow> server \<Rightarrow> server outcome" where
  "with_object i f s =
     (case objects s i of
        None \<Rightarrow> Done s
      | Some c \<Rightarrow> on_part (put_object i s) (f (c\<lparr>link := (link c)\<lparr>world := server_view s\<rparr>\<rparr>)))"

definition handleNewConnection :: "machine \<Rightarrow> SOCKET \<Rightarrow> server \<Rightarrow> server outcome" where
  "handleNewConnection m client_socket s =
     (let i = next_id s;
          s0 = s\<lparr>next_id := Suc i\<rparr> in
      andthen (on_part (put_object i s0)
                 (newConnection (client_sys m i) client_socket (address_of m i) (server_view s0))) (\<lambda>s1.
      andthen (with_object i (on_link setMessageCallback) s1) (\<lambda>s2.
      andthen (with_object i (on_link setCloseCallback) s2) (\<lambda>s3.
        let v = (server_view s3)\<lparr>clients := insert i (clients (server_view s3))\<rparr> in
        Done (s3\<lparr>server_view :=
          print_line (''New client connected. Total clients: '' @ to_string (card (clients v))) v\<rparr>)))))"

text \<open>
  \<open>handleIOCompletion\<close> of the connection of client \<open>i\<close>, looked up on the heap. It is a call of that member
  function; no code of the repository makes it, since the workers do not know the connections' keys.
\<close>

definition clientCompletion :: "machine \<Rightarrow> nat \<Rightarrow> completion \<Rightarrow> server \<Rightarrow> server outcome" where
  "clientCompletion m i completed =
     with_object i (handleIOCompletion (client_sys m i) (handleClientMessage m i) completed)"

section \<open>Server operations\<close>

definition with_history :: "(history, 'a) state \<Rightarrow> server \<Rightarrow> 'a \<times> server" where
  "with_history f s =
     (case run_state f (done_calls (server_view s)) of
        (x, h) \<Rightarrow> (x, s\<lparr>server_view := (server_view s)\<lparr>done_calls := h\<rparr>\<rparr>))"

text \<open>The connection callback that \<open>start\<close> installs; it ignores its three arguments.\<close>

definition connectionCallback :: "machine \<Rightarrow> server completion_cb" where
  "connectionCallback m n k ov s =
     (case with_history (createSocket (winsock_of m)) s of
        (client_socket, s1) \<Rightarrow>
          (case with_history (acceptEx (winsock_of m) (listen_socket s1) client_socket 0 0 0) s1 of
             (accepted, s2) \<Rightarrow>
               if accepted then handleNewConnection m client_socket s2 else Done s2))"

definition start :: "machine \<Rightarrow> server \<times> server iocp \<Rightarrow> (server \<times> server iocp) outcome" where
  "start m = (\<lambda>(s, io).
     let os = winsock_of m;
         (r, s1) = with_history (sys_call os WSAStartup) s in
     if r \<noteq> 0 then Raised (Runtime_error ''WSAStartup failed'') (s1, io)
     else
       let (sock, s2) = with_history (createSocket os) s1;
           s3 = s2\<lparr>listen_socket := sock\<rparr>;
           (_, s4) = with_history (setReuseAddr os (listen_socket s3)) s3;
           (_, s5) = with_history (bindSocket os (listen_socket s4) (srv_port s4)) s4;
           (_, s6) = with_history (startListening os (listen_socket s5)) s5;
           ((ready, io1), s7) = with_history (setupPort os io) s6 in
       if \<not> ready then Raised (Runtime_error ''IOCP setup failed'') (s7, io1)
       else
         let (_, s8) = with_history (associateSocket os (listen_socket s7) (key_value CONNECTION)) s7 in
         andthen (on_part (Pair s8) (setConnectionCallback (connectionCallback m) io1)) (\<lambda>(s9, io2).
           Done (s9\<lparr>srv_running := True,
                    server_view := print_line (''Server started on port '' @ int_to_string (srv_port s9)) (server_view s9)\<rparr>,
                 runWorkerThreads 4 io2)))"

definition stop :: "machine \<Rightarrow> server \<times> server iocp \<Rightarrow> server \<times> server iocp" where
  "stop m = (\<lambda>(s, io).
     if \<not> srv_running s then (s, io)
     else
       let os = winsock_of m;
           s1 = s\<lparr>srv_running := False\<rparr>;
           (io1, s2) = with_history (stopPort os io) s1;
           (_, s3) = with_history (closeSocket os (listen_socket s2)) s2;
           (_, s4) = with_history (sys_call os WSACleanup) s3 in
       (s4\<lparr>server_view := print_line ''Server stopped'' (server_view s4)\<rparr>, io1))"

section \<open>run.cpp\<close>

text \<open>
  What the process does: it serves (the endless loop of \<open>main\<close>), has exited with a code, or a
  thread of it hangs.
\<close>

datatype process =
    Serving "server \<times> server iocp"
  | Exited int "server \<times> server iocp"
  | Hanging "server \<times> server iocp"

fun what :: "exn \<Rightarrow> string" where
  "what (Runtime_error s) = s"
| "what (Invalid_argument s) = s"
| "what (Out_of_range s) = s"
| "what (Logic_error s) = s"
| "what (Database_exception s) = s"
| "what (Foreign_exception n) = []"

text \<open>
  Leaving \<open>main\<close> and \<open>exit\<close> destroy the global \<open>server\<close>: \<open>~Server\<close> calls \<open>stop\<close>, and then
  \<open>~IOCPCore\<close> stops the completion port.
\<close>

definition destroyServer :: "machine \<Rightarrow> server \<times> server iocp \<Rightarrow> server \<times> server iocp" where
  "destroyServer m x =
     (case stop m x of (s, io) \<Rightarrow>
        (case with_history (destroyPort (winsock_of m) io) s of (io1, s1) \<Rightarrow> (s1, io1)))"

definition main :: "machine \<Rightarrow> process" where
  "main m =
     (case start m (newServer 8080, newIocp) of
        Done x \<Rightarrow> Serving x
      | Raised e (s, io) \<Rightarrow>
          (case with_history (cerr (''Error: '' @ what e @ [CHR 0x0A])) s of
             (_, s1) \<Rightarrow> Exited 1 (destroyServer m (s1, io)))
      | Stuck x \<Rightarrow> Hanging x)"

definition signalHandler :: "machine \<Rightarrow> int \<Rightarrow> server \<times> server iocp \<Rightarrow> process" where
  "signalHandler m signal x = Exited signal (destroyServer m (stop m x))"

end
