(* ===== verification/Server_Thms.thy ===== *)
theory Server_Thms
  imports Server
begin

text \<open>
  What the server promises: its registry of clients is exact, every client gets its messages
  back in order, and what \<open>start\<close>, \<open>stop\<close> and \<open>main\<close> do when a system call fails.
\<close>

section \<open>The echo callback keeps the contract of the reader\<close>

text \<open>
  The invariant of client \<open>i\<close>'s link while the registry, apart from \<open>i\<close>, is \<open>C\<close>: the callbacks
  stay set, an open link has a socket, and \<open>i\<close> has left the registry when the link is closed.
\<close>

definition tracks :: "nat \<Rightarrow> nat set \<Rightarrow> view link \<Rightarrow> bool" where
  "tracks i C l \<longleftrightarrow> link_inv l \<and> on_close l \<and> on_message l \<and>
     (\<not> is_closed l \<longrightarrow> socket l \<noteq> INVALID_SOCKET) \<and>
     clients (world l) = (if is_closed l then C - {i} else C)"

lemma clients_print_line [simp]: "clients (print_line s v) = clients v"
  by (simp add: print_line_def)

lemma clients_disconnect [simp]: "clients (handleClientDisconnect i v) = clients v - {i}"
  by (simp add: handleClientDisconnect_def Let_def)

lemma on_close_cb_client_sys [simp]: "on_close_cb (client_sys m i) = (\<lambda>v. (None, handleClientDisconnect i v))"
  by (simp add: client_sys_def)

lemma tracks_link_invariant: "link_invariant (client_sys m i) (tracks i C)"
proof
  fix l :: "view link" and b
  show "tracks i C (l\<lparr>socket_mutex := b\<rparr>) = tracks i C l" "tracks i C (l\<lparr>callbacks_mutex := b\<rparr>) = tracks i C l"
    by (simp_all add: tracks_def traffic.I_socket_mutex traffic.I_callbacks_mutex)
next
  fix l :: "view link"
  assume l: "tracks i C l" "\<not> is_closed l"
  then have inv: "link_inv l" "socket l \<noteq> INVALID_SOCKET" by (auto simp: tracks_def)
  show "tracks i C (closedLink (client_sys m i) l)"
    using l traffic.I_close [OF inv(1) l(2) inv(2)] by (simp add: tracks_def) (simp add: closedLink_def)
  show "tracks i C (l\<lparr>is_closed := True\<rparr>)" if "socket l = INVALID_SOCKET"
    using that inv by simp
  show "tracks i C (sentLink (client_sys m i) data l)" for data
    using l traffic.I_send [OF inv(1) l(2) inv(2)] by (simp add: tracks_def) (simp add: sentLink_def)
  show "tracks i C (emit (Ev_recv s n st) l)" for s n st
    using l traffic.I_recv [OF inv(1) l(2)] by (simp add: tracks_def)
next
  fix l :: "view link" and msg p
  assume l: "tracks i C l"
  show "tracks i C (emit (Ev_message msg) l)"
    using l traffic.I_message [of l] by (simp add: tracks_def)
  show "tracks i C (l\<lparr>async_ops := filter p (async_ops l)\<rparr>)"
    using l traffic.I_release [of l] by (simp add: tracks_def)
qed

interpretation tracker: link_invariant "client_sys m i" "tracks i C" for m i C
  by (rule tracks_link_invariant)

interpretation client: reader "client_sys m i" "tracks i C" "handleClientMessage m i" for m i C
proof
  fix l msg
  assume "tracker.at i C True l"
  then have "tracker.at i C True (l\<lparr>world := print_line (''Received: '' @ msg) (world l)\<rparr>)"
    by (simp add: tracker.at_def tracks_def link_inv_def)
  then show "unless_stuck (tracker.at i C True) (handleClientMessage m i msg l)"
    by (simp add: handleClientMessage_def sendText_def tracker.sendFrame_at)
qed

section \<open>The registry\<close>

text \<open>A connection on the heap, seen with the server's present view as its world.\<close>

definition seen :: "server \<Rightarrow> view conn \<Rightarrow> view conn" where
  "seen s c = c\<lparr>link := (link c)\<lparr>world := server_view s\<rparr>\<rparr>"

definition client_ok :: "server \<Rightarrow> nat \<Rightarrow> view conn \<Rightarrow> bool" where
  "client_ok s i c \<longleftrightarrow> tracker.conn_at i (clients (server_view s)) (seen s c) \<and>
     (i \<in> clients (server_view s) \<longleftrightarrow> \<not> is_closed (link c))"

definition server_inv :: "server \<Rightarrow> bool" where
  "server_inv s \<longleftrightarrow> finite (clients (server_view s)) \<and>
     dom (objects s) = {..<next_id s} \<and>
     (\<forall>i c. objects s i = Some c \<longrightarrow> client_ok s i c) \<and>
     (\<forall>i \<in> clients (server_view s). i < next_id s)"

lemmas conn_at_defs = tracker.conn_at_def tracker.at_def tracks_def seen_def

text \<open>The invariant of one client depends on the view only through the registry.\<close>

lemma client_ok_view:
  assumes "client_ok s j c" "j \<in> clients (server_view s') \<longleftrightarrow> j \<in> clients (server_view s)"
  shows "client_ok s' j c"
  using assms by (cases "is_closed (link c)") (simp_all add: client_ok_def conn_at_defs link_inv_def)

lemma put_object_simps [simp]:
  "server_view (put_object i s c) = world (link c)" "objects (put_object i s c) = (objects s)(i \<mapsto> c)"
  "next_id (put_object i s c) = next_id s"
  by (simp_all add: put_object_def)

lemma client_ok_put:
  assumes "tracker.conn_at i C c" "i \<in> C"
  shows "client_ok (put_object i s c) i c"
  using assms by (simp add: client_ok_def conn_at_defs link_inv_def)

lemma server_inv_put:
  assumes inv: "server_inv s" and i: "i < next_id s" and c: "client_ok (put_object i s c) i c"
    and others: "\<And>j. j \<noteq> i \<Longrightarrow> j \<in> clients (world (link c)) \<longleftrightarrow> j \<in> clients (server_view s)"
  shows "server_inv (put_object i s c)"
proof -
  have sub: "clients (world (link c)) \<subseteq> insert i (clients (server_view s))" using others by blast
  then have "finite (clients (world (link c)))"
    using inv by (auto simp: server_inv_def intro: finite_subset)
  moreover have "client_ok (put_object i s c) j d" if "objects s j = Some d" "j \<noteq> i" for j d
  proof (rule client_ok_view)
    show "client_ok s j d" using inv that(1) unfolding server_inv_def by blast
    show "j \<in> clients (server_view (put_object i s c)) \<longleftrightarrow> j \<in> clients (server_view s)"
      using others [OF that(2)] by simp
  qed
  moreover have "\<forall>j \<in> clients (world (link c)). j < next_id s"
    using sub i inv unfolding server_inv_def by blast
  moreover have "dom ((objects s)(i \<mapsto> c)) = {..<next_id s}"
    using i inv by (auto simp: server_inv_def)
  ultimately show ?thesis
    using c unfolding server_inv_def by simp
qed

lemma server_inv_with_object:
  assumes inv: "server_inv s"
    and f: "\<And>c. objects s i = Some c \<Longrightarrow> \<not> is_closed (link c) \<Longrightarrow>
      tracker.conn_at i (clients (server_view s)) (seen s c) \<Longrightarrow>
      unless_stuck (tracker.conn_at i (clients (server_view s))) (f (seen s c))"
    and closed: "\<And>c. is_closed (link c) \<Longrightarrow> f c = Done c"
  shows "unless_stuck server_inv (with_object i f s)"
proof (cases "objects s i")
  case None
  then show ?thesis using inv by (simp add: with_object_def)
next
  case (Some c)
  then have ok: "client_ok s i c" using inv by (simp add: server_inv_def)
  have eq: "with_object i f s = on_part (put_object i s) (f (seen s c))"
    using Some by (simp add: with_object_def seen_def)
  have lt: "i < next_id s" using inv Some unfolding server_inv_def by blast
  show ?thesis
  proof (cases "is_closed (link c)")
    case True
    then have f_eq: "f (seen s c) = Done (seen s c)" by (intro closed) (simp add: seen_def)
    have "client_ok (put_object i s (seen s c)) i (seen s c)"
      using ok by (simp add: client_ok_def seen_def)
    then have "server_inv (put_object i s (seen s c))"
      by (rule server_inv_put [OF inv lt]) (simp add: seen_def)
    then show ?thesis by (simp add: eq f_eq)
  next
    case False
    then have "i \<in> clients (server_view s)" using ok by (simp add: client_ok_def)
    then have "server_inv (put_object i s c')" if "tracker.conn_at i (clients (server_view s)) c'" for c'
      using that by (intro server_inv_put [OF inv lt] client_ok_put) (auto simp: conn_at_defs)
    moreover have "tracker.conn_at i (clients (server_view s)) (seen s c)"
      using ok by (simp add: client_ok_def)
    ultimately show ?thesis
      unfolding eq by (intro unless_stuck_on_part unless_stuck_mono [OF f [OF Some False]])
  qed
qed

lemma clientCompletion_inv: "server_inv s \<Longrightarrow> unless_stuck server_inv (clientCompletion m i completed s)"
  unfolding clientCompletion_def
  by (rule server_inv_with_object, assumption, rule client.handleIOCompletion_at, assumption)
    (simp add: handleIOCompletion_def)

section \<open>Registering a client\<close>

lemma asyncRead_open:
  assumes "\<not> is_closed (link c)" "\<not> socket_mutex (link c)" "socket (link c) \<noteq> INVALID_SOCKET"
    and "wsa_recv sys (trace (link c)) (readSize (expected_payload_size c)) \<noteq> IO_FAILED"
  shows "\<exists>n st buf. asyncRead sys c =
    Done (c\<lparr>link := emit (Ev_recv (socket (link c)) n st) (link c), read_operation_buffer := buf\<rparr>)"
proof -
  obtain l rb fb op b n where c: "c = \<lparr>link = l, read_operation_buffer = rb, fragmented_buffer = fb,
    current_opcode = op, read_buffer = b, expected_payload_size = n\<rparr>" by (cases c)
  have "l\<lparr>socket_mutex := False\<rparr> = l" using assms(2) c by (cases l) simp
  then have same: "l\<lparr>trace := t, socket_mutex := False\<rparr> = l\<lparr>trace := t\<rparr>" for t by (cases l) simp
  show ?thesis
    using assms by (auto simp: c same asyncRead_def Let_def emit_def unlock_socket_def)
qed

lemma asyncRead_failed:
  assumes "\<not> is_closed (link c)" "\<not> socket_mutex (link c)" "socket (link c) \<noteq> INVALID_SOCKET"
    and "wsa_recv sys (trace (link c)) (readSize (expected_payload_size c)) = IO_FAILED"
  shows "\<exists>c'. asyncRead sys c = Stuck c'"
  using assms by (simp add: asyncRead_def Let_def on_link_def close_socket_locked)

text \<open>
  The constructor: it associates the socket and starts the first read. The read's status is
  \<open>firstRead\<close>.
\<close>

definition bareConn :: "SOCKET \<Rightarrow> u64 \<Rightarrow> 'w \<Rightarrow> 'w conn" where
  "bareConn sock this w =
     \<lparr>link = \<lparr>socket = sock, is_closed = False, socket_mutex = False, callbacks_mutex = False,
               on_message = False, on_close = False, async_ops = [], next_op = 0,
               trace = [Ev_associate sock this], world = w\<rparr>,
       read_operation_buffer = [], fragmented_buffer = [], current_opcode = Continuation,
       read_buffer = [], expected_payload_size = 0\<rparr>"

definition firstRead :: "'w sys \<Rightarrow> SOCKET \<Rightarrow> u64 \<Rightarrow> io_status" where
  "firstRead sys sock this = wsa_recv sys [Ev_associate sock this] (readSize 0)"

lemma newConnection_Done:
  assumes "sock \<noteq> INVALID_SOCKET" "firstRead sys sock this \<noteq> IO_FAILED"
  obtains n st buf where "newConnection sys sock this w =
    Done (bareConn sock this w \<lparr>link := emit (Ev_recv sock n st) (link (bareConn sock this w)), read_operation_buffer := buf\<rparr>)"
  using assms asyncRead_open [of "bareConn sock this w" sys]
  by (auto simp: newConnection_def bareConn_def firstRead_def)

lemma newConnection_Stuck:
  assumes "sock \<noteq> INVALID_SOCKET" "firstRead sys sock this = IO_FAILED"
  obtains c where "newConnection sys sock this w = Stuck c"
  using assms asyncRead_failed [of "bareConn sock this w" sys]
  by (auto simp: newConnection_def bareConn_def firstRead_def)

text \<open>A connection that has just been registered.\<close>

definition fresh_conn :: "SOCKET \<Rightarrow> view conn \<Rightarrow> bool" where
  "fresh_conn sock c \<longleftrightarrow> idle (link c) \<and> socket (link c) = sock \<and> on_message (link c) \<and> on_close (link c) \<and>
     (\<exists>k n st. trace (link c) = [Ev_associate sock k, Ev_recv sock n st]) \<and> async_ops (link c) = [] \<and>
     read_buffer c = [] \<and> expected_payload_size c = 0"

definition registered :: "nat \<Rightarrow> view conn \<Rightarrow> server \<Rightarrow> server \<Rightarrow> bool" where
  "registered i c s s' \<longleftrightarrow> objects s' = (objects s)(i \<mapsto> c) \<and> next_id s' = Suc i \<and>
     clients (server_view s') = insert i (clients (server_view s))"

lemma with_object_put [simp]:
  "with_object i f (put_object i s c) = on_part (put_object i (put_object i s c)) (f c)"
  by (simp add: with_object_def)

lemma on_link_callbacks:
  "\<not> callbacks_mutex (link c) \<Longrightarrow>
     on_link setMessageCallback c = Done (c\<lparr>link := (link c)\<lparr>on_message := True, callbacks_mutex := False\<rparr>\<rparr>)"
  "\<not> callbacks_mutex (link c) \<Longrightarrow>
     on_link setCloseCallback c = Done (c\<lparr>link := (link c)\<lparr>on_close := True, callbacks_mutex := False\<rparr>\<rparr>)"
  by (simp_all add: on_link_def setMessageCallback_def setCloseCallback_def with_callbacks_def unlock_callbacks_def)

lemma fun_upd_same_iff [simp]: "f(x := a) = f(x := b) \<longleftrightarrow> a = b"
  by (metis fun_upd_same)

lemma handleNewConnection_Done:
  assumes "sock \<noteq> INVALID_SOCKET"
    and "firstRead (client_sys m (next_id s)) sock (address_of m (next_id s)) \<noteq> IO_FAILED"
  shows "\<exists>s' c. handleNewConnection m sock s = Done s' \<and> fresh_conn sock c \<and> registered (next_id s) c s s'"
proof -
  obtain n st buf where new: "newConnection (client_sys m (next_id s)) sock (address_of m (next_id s)) (server_view s) =
    Done (bareConn sock (address_of m (next_id s)) (server_view s)
      \<lparr>link := emit (Ev_recv sock n st) (link (bareConn sock (address_of m (next_id s)) (server_view s))),
       read_operation_buffer := buf\<rparr>)"
    by (rule newConnection_Done [OF assms])
  show ?thesis
    using assms(1)
    by (simp add: handleNewConnection_def Let_def new on_link_callbacks bareConn_def registered_def fresh_conn_def idle_def)
qed

lemma handleNewConnection_Stuck:
  assumes "sock \<noteq> INVALID_SOCKET"
    and "firstRead (client_sys m (next_id s)) sock (address_of m (next_id s)) = IO_FAILED"
  shows "\<exists>s'. handleNewConnection m sock s = Stuck s'"
  by (rule newConnection_Stuck [OF assms, where w = "server_view s"]) (simp add: handleNewConnection_def Let_def)

lemma fresh_conn_ok:
  assumes "fresh_conn sock c" "i \<in> clients (server_view s)"
  shows "client_ok s i c"
  using assms by (auto simp: client_ok_def conn_at_defs fresh_conn_def link_inv_def idle_def)

lemma registered_inv:
  assumes "server_inv s" "fresh_conn sock c" "registered (next_id s) c s s'"
  shows "server_inv s'"
proof -
  have s': "objects s' = (objects s)(next_id s \<mapsto> c)" "next_id s' = Suc (next_id s)"
      "clients (server_view s') = insert (next_id s) (clients (server_view s))"
    using assms(3) by (simp_all add: registered_def)
  have "client_ok s' j d" if "objects s' j = Some d" for j d
  proof (cases "j = next_id s")
    case True
    then show ?thesis using that s' assms(2) by (simp add: fresh_conn_ok)
  next
    case False
    then have "client_ok s j d" using that s'(1) assms(1) unfolding server_inv_def by simp
    then show ?thesis by (rule client_ok_view) (simp add: s'(3) False)
  qed
  moreover have "dom (objects s') = {..<next_id s'}"
    using assms(1) s' by (auto simp: server_inv_def lessThan_Suc)
  ultimately show ?thesis
    using assms(1) s'(2,3) unfolding server_inv_def by (auto intro: less_SucI)
qed

lemma handleNewConnection_inv:
  assumes "server_inv s" "sock \<noteq> INVALID_SOCKET"
  shows "unless_stuck server_inv (handleNewConnection m sock s)"
proof (cases "firstRead (client_sys m (next_id s)) sock (address_of m (next_id s)) = IO_FAILED")
  case True
  then show ?thesis using handleNewConnection_Stuck [OF assms(2), of m s] by auto
next
  case False
  then show ?thesis
    using handleNewConnection_Done [OF assms(2), of m s] registered_inv [OF assms(1)] by fastforce
qed

section \<open>Echoes\<close>

fun sent_frames :: "io_event list \<Rightarrow> byte list list" where
  "sent_frames [] = []"
| "sent_frames (Ev_send s bs st # es) = bs # sent_frames es"
| "sent_frames (_ # es) = sent_frames es"

lemma sent_frames_append [simp]: "sent_frames (xs @ ys) = sent_frames xs @ sent_frames ys"
  by (induction xs rule: sent_frames.induct) auto

definition echoFrame :: "string \<Rightarrow> byte list" where
  "echoFrame message = headerBytes 0 Text (length (''Echo: '' @ message)) False @ bytes_of (''Echo: '' @ message)"

text \<open>\<open>echoed ms l l'\<close>: between \<open>l\<close> and \<open>l'\<close> the messages \<open>ms\<close> were answered, in order.\<close>

definition echoed :: "string list \<Rightarrow> view link \<Rightarrow> view link \<Rightarrow> bool" where
  "echoed ms l l' \<longleftrightarrow> idle l' \<and> on_message l' \<and> sent_frames (trace l') = sent_frames (trace l) @ map echoFrame ms"

lemma echoed_trans: "echoed ms l l' \<Longrightarrow> echoed ns l' l'' \<Longrightarrow> echoed (ms @ ns) l l''"
  by (simp add: echoed_def)

lemma createFrame_echo:
  "createFrame k Text (''Echo: '' @ msg) False = Inr (echoFrame msg)"
  by (simp add: createFrame_def validateOpcode_def echoFrame_def headerBytes_def keyBytes_def)

text \<open>
  \<open>answers sys ms l r\<close>: the operation \<open>r\<close> on \<open>l\<close> has answered the messages \<open>ms\<close>; or its thread is stuck after
  the first of them, on a call of Winsock that failed.
\<close>

definition failed_last :: "view sys \<Rightarrow> io_event list \<Rightarrow> bool" where
  "failed_last sys tr \<longleftrightarrow> (\<exists>tr' s bs n. tr = tr' @ [Ev_send s bs IO_FAILED] \<and> wsa_send sys tr' bs = IO_FAILED \<or>
     tr = tr' @ [Ev_recv s n IO_FAILED] \<and> wsa_recv sys tr' n = IO_FAILED)"

definition hung_after :: "view sys \<Rightarrow> string list \<Rightarrow> view link \<Rightarrow> view link \<Rightarrow> bool" where
  "hung_after sys ms l l' \<longleftrightarrow> failed_last sys (trace l') \<and>
     (\<exists>j. sent_frames (trace l') = sent_frames (trace l) @ map echoFrame (take j ms))"

fun answers :: "view sys \<Rightarrow> string list \<Rightarrow> view link \<Rightarrow> view link outcome \<Rightarrow> bool" where
  "answers sys ms l (Done l') = echoed ms l l'"
| "answers sys ms l (Stuck l') = hung_after sys ms l l'"
| "answers sys ms l (Raised e l') = False"

lemma hung_after_trans:
  assumes "echoed ms l l'" "hung_after sys ns l' l''"
  shows "hung_after sys (ms @ ns) l l''"
proof -
  obtain j where "failed_last sys (trace l'')" "sent_frames (trace l'') = sent_frames (trace l') @ map echoFrame (take j ns)"
    using assms(2) by (auto simp: hung_after_def)
  then show ?thesis
    using assms(1) by (auto simp: hung_after_def echoed_def intro!: exI [of _ "length ms + j"])
qed

lemma hung_after_append: "hung_after sys ms l l' \<Longrightarrow> hung_after sys (ms @ ns) l l'"
proof -
  assume "hung_after sys ms l l'"
  then obtain j where "failed_last sys (trace l')" "sent_frames (trace l') = sent_frames (trace l) @ map echoFrame (take j ms)"
    by (auto simp: hung_after_def)
  moreover have "take j ms = take (min j (length ms)) (ms @ ns)" by (simp add: min_def)
  ultimately show ?thesis unfolding hung_after_def by metis
qed

lemma answers_andthen:
  assumes "answers sys ms l r" "\<And>l'. r = Done l' \<Longrightarrow> echoed ms l l' \<Longrightarrow> answers sys ns l' (f l')"
  shows "answers sys (ms @ ns) l (andthen r f)"
proof (cases r)
  case (Done l')
  then show ?thesis
    using assms(1) assms(2) [of l'] by (cases "f l'") (auto intro: echoed_trans hung_after_trans)
qed (use assms(1) in \<open>auto intro: hung_after_append\<close>)

lemma handleFrame_echo:
  assumes "idle l" "on_message l" "opcode h = Text" "decodePayload h p = Inr msg"
  shows "answers (client_sys m i) [msg] l (handleFrame (client_sys m i) (handleClientMessage m i) h p l)"
proof -
  let ?sys = "client_sys m i"
  define l1 where "l1 = (emit (Ev_message msg) (l\<lparr>callbacks_mutex := True\<rparr>))\<lparr>world := print_line (''Received: '' @ msg) (world l)\<rparr>"
  have free: "\<not> is_closed l1" "\<not> socket_mutex l1" "socket l1 \<noteq> INVALID_SOCKET" using assms(1) by (simp_all add: l1_def idle_def)
  have run: "handleFrame ?sys (handleClientMessage m i) h p l =
      catch_exn (on_exit unlock_callbacks (asyncWrite ?sys (echoFrame msg) l1)) (close ?sys 1002 ''Protocol error'')"
    using assms createFrame_echo [of "random_mask ?sys" msg]
    by (simp add: handleFrame_def with_callbacks_def idle_def deliver_def handleClientMessage_def sendText_def sendFrame_def l1_def)
  show ?thesis
  proof (cases "sendStatus ?sys (echoFrame msg) l1 = IO_FAILED")
    case True
    obtain l2 where l2: "asyncWrite ?sys (echoFrame msg) l1 = Stuck l2"
      "trace l2 = trace l1 @ [Ev_associate (socket l1) (key_value WRITE), Ev_send (socket l1) (echoFrame msg) IO_FAILED]"
      using asyncWrite_failed [OF free True] by blast
    have "trace l2 = (trace l1 @ [Ev_associate (socket l1) (key_value WRITE)]) @ [Ev_send (socket l1) (echoFrame msg) IO_FAILED]"
      using l2(2) by simp
    then have "failed_last ?sys (trace l2)" using True unfolding failed_last_def sendStatus_def by blast
    then have "hung_after (client_sys m i) [msg] l l2" using l2(2) by (auto simp: hung_after_def l1_def intro!: exI [of _ 1])
    then show ?thesis by (simp add: run l2(1))
  next
    case False
    then have "answers (client_sys m i) [msg] l (Done (unlock_callbacks (sentLink ?sys (echoFrame msg) l1)))"
      using assms(1,2) by (simp add: echoed_def idle_def sentLink_def l1_def)
    then show ?thesis by (simp only: run asyncWrite_open [OF free False] on_exit.simps catch_exn.simps)
  qed
qed

definition texts :: "string list \<Rightarrow> (FrameHeader \<times> byte list) list \<Rightarrow> bool" where
  "texts = list_all2 (\<lambda>msg (h, p). opcode h = Text \<and> decodePayload h p = Inr msg)"

lemma handleFrames_echo:
  "texts ms fs \<Longrightarrow> idle l \<Longrightarrow> on_message l \<Longrightarrow> answers (client_sys m i) ms l (handleFrames (client_sys m i) (handleClientMessage m i) fs l)"
  unfolding texts_def
proof (induction ms fs arbitrary: l rule: list_all2_induct)
  case Nil
  then show ?case by (simp add: echoed_def)
next
  case (Cons msg ms f fs)
  obtain h p where f: "f = (h, p)" by force
  then have hp: "opcode h = Text" "decodePayload h p = Inr msg" using Cons.hyps(1) by simp_all
  have "answers (client_sys m i) ([msg] @ ms) l (andthen (handleFrame (client_sys m i) (handleClientMessage m i) h p l)
      (handleFrames (client_sys m i) (handleClientMessage m i) fs))"
    by (rule answers_andthen [OF handleFrame_echo [OF Cons.prems hp]]) (simp add: Cons.IH echoed_def)
  then show ?case by (simp add: f)
qed

abbreviation next_of :: "machine \<Rightarrow> nat \<Rightarrow> byte list \<Rightarrow> (byte, FrameHeader \<times> byte list) decoded" where
  "next_of m i \<equiv> nextFrame (stack_header (net_of m i))"

lemma stack_header_client_sys [simp]: "stack_header (client_sys m i) = stack_header (net_of m i)"
  by (simp add: client_sys_def)

lemma processData_echo:
  assumes "texts ms fs" "idle (link c)" "on_message (link c)"
    and dec: "decodeAll (next_of m i) (read_buffer c @ data) = (fs, rest, None)"
  shows "answers (client_sys m i) ms (link c) (map_outcome link (processData (client_sys m i) (handleClientMessage m i) data c))"
  using handleFrames_echo [OF assms(1-3)] by (simp add: processData_link streamSpec_def dec)

lemma asyncRead_answers:
  assumes "idle (link c)" "on_message (link c)"
  shows "answers sys [] (link c) (map_outcome link (asyncRead sys c)) \<and>
    (\<forall>c'. asyncRead sys c = Done c' \<longrightarrow> read_buffer c' = read_buffer c)"
proof (cases "wsa_recv sys (trace (link c)) (readSize (expected_payload_size c)) = IO_FAILED")
  case True
  then obtain c' where c': "asyncRead sys c = Stuck c'"
    "trace (link c') = trace (link c) @ [Ev_recv (socket (link c)) (readSize (expected_payload_size c)) IO_FAILED]"
    using assms(1) by (auto simp: asyncRead_def idle_def Let_def on_link_def close_socket_locked)
  then show ?thesis using True by (auto simp: hung_after_def failed_last_def intro!: exI [of _ 0])
next
  case False
  then obtain n st buf where "asyncRead sys c =
      Done (c\<lparr>link := emit (Ev_recv (socket (link c)) n st) (link c), read_operation_buffer := buf\<rparr>)"
    using asyncRead_open [of c sys] assms(1) by (auto simp: idle_def)
  with assms show ?thesis by (simp add: echoed_def idle_def)
qed

lemma completion_echo:
  assumes "texts ms fs" "idle (link c)" "on_message (link c)" "data \<noteq> []"
    and dec: "decodeAll (next_of m i) (read_buffer c @ data) = (fs, rest, None)"
  defines "r \<equiv> handleIOCompletion (client_sys m i) (handleClientMessage m i) (ReadDone data) c"
  shows "answers (client_sys m i) ms (link c) (map_outcome link r) \<and> (\<forall>c'. r = Done c' \<longrightarrow> read_buffer c' = rest)"
proof -
  let ?sys = "client_sys m i" and ?cb = "handleClientMessage m i" and ?c = "c\<lparr>read_operation_buffer := data\<rparr>"
  let ?p = "processData ?sys ?cb data ?c"
  have p: "answers (client_sys m i) ms (link c) (map_outcome link ?p)"
    using processData_echo [of ms fs ?c m i data rest] assms by simp
  have r: "r = on_exit (\<lambda>c. c) (catch_exn (andthen ?p (asyncRead ?sys)) (on_link (close ?sys 1002 ''Protocol error'')))"
  proof -
    have "(releaseOp (ReadDone data) :: view conn \<Rightarrow> view conn) = (\<lambda>c. c)" by (rule ext) simp
    then show ?thesis using assms(2,4) by (simp add: r_def handleIOCompletion_def idle_def Let_def)
  qed
  show ?thesis
  proof (cases ?p)
    case (Done c1)
    then have e: "echoed ms (link c) (link c1)" "read_buffer c1 = rest"
      using p processData_Done(1) [OF Done] dec by simp_all
    note ar = asyncRead_answers [of c1 ?sys]
    have a: "answers (client_sys m i) [] (link c1) (map_outcome link (asyncRead ?sys c1))"
      "asyncRead ?sys c1 = Done c' \<longrightarrow> read_buffer c' = rest" for c'
      using ar e by (auto simp: echoed_def)
    then have "answers (client_sys m i) (ms @ []) (link c) (andthen (Done (link c1)) (\<lambda>l. map_outcome link (asyncRead ?sys c1)))"
      using e(1) by (intro answers_andthen) auto
    moreover have "r = asyncRead ?sys c1" using a(1) Done by (cases "asyncRead ?sys c1") (simp_all add: r)
    ultimately show ?thesis using a(2) by simp
  next
    case (Raised e c1)
    then show ?thesis using p by simp
  next
    case (Stuck c1)
    then show ?thesis using p by (simp add: r)
  qed
qed

lemma nextFrame_Nil: "nextFrame h0 [] = Need"
  by (simp add: nextFrame_def extractFrame_def parseHeader_def)

lemma proper_prefix_Need:
  assumes "createFrame k op msg mk = Inr f" "length msg \<le> unat MAX_FRAME_SIZE" "n < length f"
  shows "nextFrame h0 (take n f) = Need"
proof (cases "nextFrame h0 (take n f)")
  case (Got g rest)
  obtain h p where "extractFrame h0 (f @ []) = Extracted h p []" using extractFrame_created [OF assms(1,2)] by blast
  moreover have "nextFrame h0 (take n f @ drop n f) = Got g (rest @ drop n f)" by (rule frames.got_append [OF Got])
  ultimately show ?thesis using assms(3) by (simp add: nextFrame_def)
next
  case (Bad e)
  obtain h p where "extractFrame h0 (f @ []) = Extracted h p []" using extractFrame_created [OF assms(1,2)] by blast
  moreover have "nextFrame h0 (take n f @ drop n f) = Bad e" by (rule frames.bad_append [OF Bad])
  ultimately show ?thesis by (simp add: nextFrame_def)
qed

lemma client_stream:
  assumes "list_all2 (\<lambda>(k, m) f. createFrame k Text m True = Inr f \<and> length m \<le> unat MAX_FRAME_SIZE) msgs fs"
    and "nextFrame h0 rest = Need"
  shows "\<exists>gs. decodeAll (nextFrame h0) (concat fs @ rest) = (gs, rest, None) \<and> texts (map snd msgs) gs"
  using assms(1)
proof (induction msgs fs rule: list_all2_induct)
  case Nil
  show ?case by (simp add: frames.decodeAll_Need assms(2) texts_def)
next
  case (Cons km msgs f fs)
  obtain k msg where km: "km = (k, msg)" by force
  with Cons have "createFrame k Text msg True = Inr f" "length msg \<le> unat MAX_FRAME_SIZE" by auto
  from extractFrame_created [OF this, of h0 "concat fs @ rest"] obtain h p where
    ex: "extractFrame h0 (f @ concat fs @ rest) = Extracted h p (concat fs @ rest)" "opcode h = Text" "decodePayload h p = Inr msg" by blast
  then have "nextFrame h0 (f @ concat fs @ rest) = Got (h, p) (concat fs @ rest)" by (simp add: nextFrame_def)
  from frames.decodeAll_Got [OF this] Cons.IH ex show ?case by (auto simp: km texts_def)
qed

section \<open>Reachable states\<close>

text \<open>The server after a successful \<open>start\<close>, its clients connecting and their completions.\<close>

inductive server_reach :: "machine \<Rightarrow> server \<Rightarrow> bool" for m where
  initial: "objects s = (\<lambda>_. None) \<Longrightarrow> clients (server_view s) = {} \<Longrightarrow> next_id s = 0 \<Longrightarrow> server_reach m s"
| connect: "server_reach m s \<Longrightarrow> sock \<noteq> INVALID_SOCKET \<Longrightarrow> handleNewConnection m sock s = Done s' \<Longrightarrow> server_reach m s'"
| complete: "server_reach m s \<Longrightarrow> clientCompletion m i completed s = Done s' \<Longrightarrow> server_reach m s'"

lemma server_reach_inv: "server_reach m s \<Longrightarrow> server_inv s"
proof (induction rule: server_reach.induct)
  case (initial s)
  then show ?case by (simp add: server_inv_def)
next
  case (connect s sock s')
  then show ?case using handleNewConnection_inv [of s sock m] by simp
next
  case (complete s i completed s')
  then show ?case using clientCompletion_inv [of s m i completed] by simp
qed

text \<open>A machine on which every operation is pending.\<close>

definition quietMachine :: machine where
  "quietMachine = \<lparr>winsock_of = \<lparr>answer = (\<lambda>h c. 1), format_message = (\<lambda>h c. None)\<rparr>,
     net_of = (\<lambda>i. pendingNet), address_of = (\<lambda>i. 8 * of_nat i)\<rparr>"

end
