(* ===== verification/Server_Props.thy ===== *)
theory Server_Props
  imports Server_Thms
begin

text \<open>
  The properties of the server: the echo service end to end, the exact registry, and what
  \<open>start\<close>, \<open>stop\<close>, \<open>main\<close> and the connection callback do with the system's resources.
\<close>

lemma connectionCallback_run:
  "\<exists>cs. connectionCallback m n k ov s =
      Done (s\<lparr>server_view := (server_view s)\<lparr>done_calls := done_calls (server_view s) @ WSASocket # cs\<rparr>\<rparr>) \<and>
    list_all (\<lambda>c. reporting c \<or> c = WSAIoctl_AcceptEx (listen_socket s)) cs"
proof -
  let ?os = "winsock_of m" and ?h = "done_calls (server_view s)"
  obtain sock cs1 where 1: "run_state (createSocket ?os) ?h = (sock, ?h @ WSASocket # cs1)" "list_all reporting cs1"
    using run_createSocket [of ?os ?h] by blast
  obtain cs2 where 2: "run_state (acceptEx ?os (listen_socket s) sock 0 0 0) (?h @ WSASocket # cs1) =
      (False, (?h @ WSASocket # cs1) @ cs2)"
    "list_all (\<lambda>c. reporting c \<or> c = WSAIoctl_AcceptEx (listen_socket s)) cs2"
    using acceptEx_small [of 0 ?os "listen_socket s" sock 0 0 "?h @ WSASocket # cs1"] by auto
  show ?thesis
    using 1 2 by (intro exI [of _ "cs1 @ cs2"])
      (auto simp: connectionCallback_def with_history_def list_all_iff)
qed

lemma connectionCallback_Done: "\<exists>s'. connectionCallback m n k ov s = Done s'"
  using connectionCallback_run [of m n k ov s] by blast

text \<open>
  C4. One completed read of a client of the echo server: if the bytes kept from before and the bytes
  received are whole text messages, framed and masked by \<open>createFrame\<close>, and then a part of one more
  frame, \<open>handleIOCompletion\<close> sends one text frame per message, holding it after ''Echo: '', in order,
  keeps the part for the next read, and leaves the connection open and free. The only other end,
  for any behaviour of Winsock, is that the thread hangs on the first send or receive that fails,
  after the first of these frames. That completions are handed to the connection at all is not
  part of this property: no code of the repository does it.
\<close>

theorem completion_echoes:
  assumes "idle (link c)" and "on_message (link c)" and "data \<noteq> []"
    and "list_all2 (\<lambda>(k, msg) f. createFrame k Text msg True = Inr f \<and> length msg \<le> unat MAX_FRAME_SIZE) msgs fs"
    and "createFrame k Text msg True = Inr f" and "length msg \<le> unat MAX_FRAME_SIZE" and "n < length f"
    and "read_buffer c @ data = concat fs @ take n f"
  shows "case handleIOCompletion (client_sys m i) (handleClientMessage m i) (ReadDone data) c of
      Done c' \<Rightarrow> idle (link c') \<and> on_message (link c') \<and> read_buffer c' = take n f \<and>
        sent_frames (trace (link c')) = sent_frames (trace (link c)) @ map echoFrame (map snd msgs)
    | Stuck c' \<Rightarrow> failed_last (client_sys m i) (trace (link c')) \<and>
        (\<exists>j. sent_frames (trace (link c')) = sent_frames (trace (link c)) @ map echoFrame (take j (map snd msgs)))
    | Raised e c' \<Rightarrow> False"
proof -
  obtain gs where gs: "decodeAll (next_of m i) (read_buffer c @ data) = (gs, take n f, None)" "texts (map snd msgs) gs"
    using client_stream [OF assms(4) proper_prefix_Need [OF assms(5-7)], of "stack_header (net_of m i)"] assms(8) by auto
  from completion_echo [OF gs(2) assms(1-3) gs(1)] show ?thesis
    by (auto simp: echoed_def hung_after_def split: outcome.split)
qed

theorem completion_echoes_witness:
  "\<exists>c0 s c'. handleNewConnection quietMachine 7 (newServer 8080) = Done s \<and> objects s 0 = Some c0 \<and>
     handleIOCompletion (client_sys quietMachine 0) (handleClientMessage quietMachine 0) (ReadDone (hiFrame @ [0x81])) c0 = Done c' \<and>
     sent_frames (trace (link c')) = [echoFrame ''Hi''] \<and> read_buffer c' = [0x81]"
proof -
  let ?m = quietMachine
  have seven: "(7 :: SOCKET) \<noteq> INVALID_SOCKET" by (simp add: INVALID_SOCKET_def)
  have "firstRead (client_sys ?m i) 7 k \<noteq> IO_FAILED" for i k
    by (simp add: firstRead_def client_sys_def quietMachine_def pendingNet_def)
  then obtain s c0 where new: "handleNewConnection ?m 7 (newServer 8080) = Done s" "fresh_conn 7 c0"
    "registered (next_id (newServer 8080)) c0 (newServer 8080) s"
    using handleNewConnection_Done [OF seven, of ?m "newServer 8080"] by blast
  have "next_id (newServer 8080) = 0" by (simp add: newServer_def)
  with new(3) have object: "objects s 0 = Some c0" by (simp add: registered_def)
  have c0: "idle (link c0)" "on_message (link c0)" "read_buffer c0 = []" using new(2) by (simp_all add: fresh_conn_def)
  have silent: "sent_frames (trace (link c0)) = []" using new(2) unfolding fresh_conn_def by fastforce
  have part: "list_all2 (\<lambda>(k, msg) f. createFrame k Text msg True = Inr f \<and> length msg \<le> unat MAX_FRAME_SIZE) [(0x01020304, ''Hi'')] [hiFrame]"
    "length ''Hi'' \<le> unat MAX_FRAME_SIZE" "1 < length hiFrame" "read_buffer c0 @ hiFrame @ [0x81] = concat [hiFrame] @ take 1 hiFrame"
    by (simp_all add: createFrame_hi MAX_FRAME_SIZE_nat c0(3) hiFrame_def)
  have first: "take 1 hiFrame = [0x81]" by (simp add: hiFrame_def)
  let ?r = "handleIOCompletion (client_sys ?m 0) (handleClientMessage ?m 0) (ReadDone (hiFrame @ [0x81])) c0"
  have some: "hiFrame @ [0x81] \<noteq> []" by simp
  note echoes = completion_echoes [OF c0(1,2) some part(1) createFrame_hi part(2-4), of ?m 0]
  have good: "\<not> failed_last (client_sys ?m 0) tr" for tr
    by (auto simp: failed_last_def client_sys_def quietMachine_def pendingNet_def)
  show ?thesis
  proof (cases ?r)
    case (Done c')
    have "sent_frames (trace (link c')) = [echoFrame ''Hi'']" "read_buffer c' = [0x81]"
      using echoes by (simp_all only: Done outcome.case first silent append_Nil list.map snd_conv simp_thms)
    with new(1) object Done show ?thesis by blast
  next
    case (Raised e c')
    then show ?thesis using echoes by (simp only: outcome.case)
  next
    case (Stuck c')
    then show ?thesis using echoes good by (simp only: outcome.case simp_thms)
  qed
qed

text \<open>
  C12. The registry is exact: whenever no operation is running, \<open>clients_\<close> holds exactly the
  connections that are open. Every connection has its two mutexes free and keeps its callbacks,
  which own it, so no connection is ever destroyed.
\<close>

theorem registry_exact:
  assumes "server_reach m s"
  shows "clients (server_view s) = {i. \<exists>c. objects s i = Some c \<and> \<not> is_closed (link c)} \<and>
    (\<forall>i c. objects s i = Some c \<longrightarrow> link_inv (link c) \<and> \<not> socket_mutex (link c) \<and> \<not> callbacks_mutex (link c) \<and>
       on_message (link c) \<and> on_close (link c))"
proof (intro conjI allI impI equalityI subsetI CollectI)
  note inv = server_reach_inv [OF assms]
  fix i
  show "\<exists>c. objects s i = Some c \<and> \<not> is_closed (link c)" if "i \<in> clients (server_view s)"
  proof -
    have "i \<in> dom (objects s)" using inv that by (auto simp: server_inv_def)
    then obtain c where c: "objects s i = Some c" by blast
    then have "client_ok s i c" using inv unfolding server_inv_def by blast
    then show ?thesis using c that by (simp add: client_ok_def)
  qed
  show "i \<in> clients (server_view s)" if "i \<in> {i. \<exists>c. objects s i = Some c \<and> \<not> is_closed (link c)}"
    using inv that by (auto simp: server_inv_def client_ok_def)
  fix c
  assume "objects s i = Some c"
  then have "client_ok s i c" using inv unfolding server_inv_def by blast
  then show "link_inv (link c)" "\<not> socket_mutex (link c)" "\<not> callbacks_mutex (link c)" "on_message (link c)" "on_close (link c)"
    by (simp_all add: client_ok_def conn_at_defs link_inv_def)
qed

theorem registry_exact_witness:
  "\<exists>s :: server. clients (server_view s) = {0} \<and> clients (server_view s) = {i. \<exists>c. objects s i = Some c \<and> \<not> is_closed (link c)}"
proof -
  have init: "server_reach quietMachine (newServer 8080)" by (rule server_reach.initial) (simp_all add: newServer_def)
  have seven: "(7 :: SOCKET) \<noteq> INVALID_SOCKET" by (simp add: INVALID_SOCKET_def)
  have "firstRead (client_sys quietMachine i) 7 k \<noteq> IO_FAILED" for i k
    by (simp add: firstRead_def client_sys_def quietMachine_def pendingNet_def)
  then obtain s' c where new: "handleNewConnection quietMachine 7 (newServer 8080) = Done s'"
    "registered (next_id (newServer 8080)) c (newServer 8080) s'"
    using handleNewConnection_Done [OF seven, of quietMachine "newServer 8080"] by blast
  have "server_reach quietMachine s'" by (rule server_reach.connect [OF init seven new(1)])
  from registry_exact [OF this]
  have open_ones: "clients (server_view s') = {i. \<exists>c. objects s' i = Some c \<and> \<not> is_closed (link c)}" by (rule conjunct1)
  have one: "clients (server_view s') = {0}" using new(2) by (simp add: registered_def newServer_def)
  from one open_ones show ?thesis by (rule exI [of _ s', OF conjI])
qed

text \<open>
  C40. No client is ever registered: the connection callback calls \<open>acceptEx\<close> without a buffer,
  which always fails, so a completed accept changes neither the registry nor the heap. The
  socket that was created for the client is not closed.
\<close>

theorem connection_callback_registers_nobody:
  "\<exists>cs. connectionCallback m n k ov s =
      Done (s\<lparr>server_view := (server_view s)\<lparr>done_calls := done_calls (server_view s) @ WSASocket # cs\<rparr>\<rparr>) \<and>
    (\<forall>x. Closesocket x \<notin> set cs) \<and> (\<forall>l a b d ov. AcceptEx l a b d ov \<notin> set cs)"
  using connectionCallback_run [of m n k ov s] by (fastforce simp: list_all_iff reporting_def)

text \<open>
  C37. \<open>start\<close> fails exactly when Winsock or the completion port cannot be set up. In every other
  case, also when there is no listening socket because \<open>socket\<close>, \<open>bind\<close> or \<open>listen\<close> failed, the
  server runs: four workers, the connection callback set, and the read and write callbacks not.
\<close>

theorem start_correct:
  assumes "\<And>h. answer (winsock_of m) h CreateIoCompletionPort = port"
  shows "start m (newServer p, newIocp) \<noteq> Stuck x \<and>
    ((\<exists>e y. start m (newServer p, newIocp) = Raised e y) \<longleftrightarrow> answer (winsock_of m) [] WSAStartup \<noteq> 0 \<or> port = 0) \<and>
    (\<forall>s io. start m (newServer p, newIocp) = Done (s, io) \<longrightarrow>
       srv_running s \<and> clients (server_view s) = {} \<and>
       io = runWorkerThreads 4 (newIocp\<lparr>iocp_handle := port, connection_cb := Some (connectionCallback m)\<rparr>)) \<and>
    (\<forall>e s io. start m (newServer p, newIocp) = Raised e (s, io) \<longrightarrow> stop m (s, io) = (s, io))"
  using assms
  by (auto simp: start_def with_history_def newServer_def newIocp_def setupPort_def setConnectionCallback_def
      runWorkerThreads_def print_line_def stop_def Let_def split: prod.splits if_splits)

theorem start_correct_witness:
  "(\<exists>e y. start (quietMachine\<lparr>winsock_of := \<lparr>answer = \<lambda>h c. 0, format_message = \<lambda>h c. None\<rparr>\<rparr>) (newServer 8080, newIocp) = Raised e y)"
  using start_correct [of "quietMachine\<lparr>winsock_of := \<lparr>answer = \<lambda>h c. 0, format_message = \<lambda>h c. None\<rparr>\<rparr>" 0 8080]
  by simp

text \<open>
  \<open>stop\<close> undoes a start once: on a running server it wakes every worker with one packet, closes
  the completion port and the listening socket and ends Winsock, in this order. Then, as on a
  server that never ran, it does nothing.
\<close>

theorem stop_correct:
  "stop m (stop m (s, io)) = stop m (s, io) \<and>
   \<not> srv_running (fst (stop m (s, io))) \<and>
   done_calls (server_view (fst (stop m (s, io)))) = done_calls (server_view s) @
     (if srv_running s then
        (if iocp_running io then
           replicate (iocp_workers io) (PostQueuedCompletionStatus 0 0 0) @
           (if iocp_handle io \<noteq> INVALID_HANDLE_VALUE then [CloseHandle (iocp_handle io)] else [])
         else []) @
        (if listen_socket s \<noteq> INVALID_SOCKET then [Closesocket (listen_socket s)] else []) @
        [WSACleanup, Cout (''Server stopped'' @ [CHR 0x0A])]
      else [])"
proof (intro conjI)
  have wake: "run_state (wakeWorkers os n) h = ((), h @ replicate n (PostQueuedCompletionStatus 0 0 0))" for os n h
    by (induction n arbitrary: h) simp_all
  show stopped: "\<not> srv_running (fst (stop m (s, io)))"
    by (auto simp: stop_def with_history_def Let_def split: prod.split)
  then show "stop m (stop m (s, io)) = stop m (s, io)"
    by (cases "stop m (s, io)") (simp add: stop_def)
  show "done_calls (server_view (fst (stop m (s, io)))) = done_calls (server_view s) @
     (if srv_running s then
        (if iocp_running io then
           replicate (iocp_workers io) (PostQueuedCompletionStatus 0 0 0) @
           (if iocp_handle io \<noteq> INVALID_HANDLE_VALUE then [CloseHandle (iocp_handle io)] else [])
         else []) @
        (if listen_socket s \<noteq> INVALID_SOCKET then [Closesocket (listen_socket s)] else []) @
        [WSACleanup, Cout (''Server stopped'' @ [CHR 0x0A])]
      else [])"
    by (simp add: stop_def with_history_def stopPort_def closeSocket_def wake print_line_def Let_def)
qed

text \<open>
  C17. The server's own callback cannot hang \<open>stop\<close>: with the callbacks that \<open>start\<close> installs, from
  every state in which \<open>IOCPCore::stop\<close> has begun, every schedule of the workers and \<open>stop\<close> takes at
  most \<open>stop_work\<close> steps, and where no step is left \<open>stop\<close> is at its end and every worker has returned.
\<close>

theorem server_stop_returns:
  assumes "port_reach (started 4 (newIocp\<lparr>iocp_handle := h, connection_cb := Some (connectionCallback m)\<rparr>) s) \<sigma>"
    and "stopping \<sigma> \<noteq> Not_stopping"
  shows "(\<exists>\<tau>. iocp_step\<^sup>*\<^sup>* \<sigma> \<tau> \<and> stopping \<tau> = Stopped) \<and>
    (\<forall>\<tau>. iocp_step\<^sup>*\<^sup>* \<sigma> \<tau> \<longrightarrow> (\<exists>\<upsilon>. iocp_step \<tau> \<upsilon>) \<or> stopping \<tau> = Stopped \<and> list_all (\<lambda>w. w = Returned) (threads \<tau>)) \<and>
    (\<forall>k \<tau>. (iocp_step ^^ k) \<sigma> \<tau> \<longrightarrow> k \<le> stop_work \<sigma>)"
proof -
  let ?io = "newIocp\<lparr>iocp_handle := h, connection_cb := Some (connectionCallback m)\<rparr>"
  have "\<exists>s'. dispatch ?io p s = Done s'" for p s
    using connectionCallback_Done [of m "pk_bytes p" "pk_key p" "pk_overlapped p" s]
    by (auto simp: dispatch_def invoke_def newIocp_def split: option.split CompletionKeyType.split)
  then have "stop_inv ?io \<sigma>"
    using assms by (intro stop_inv_reach) (auto simp: total_callbacks_def fresh_core_def newIocp_def)
  then show ?thesis by (rule stop_inv_ends)
qed

theorem server_stop_returns_witness:
  "\<exists>\<tau>. iocp_step\<^sup>*\<^sup>* ((started 4 (newIocp\<lparr>iocp_handle := 9, connection_cb := Some (connectionCallback quietMachine)\<rparr>) (newServer 8080))
     \<lparr>core := (runWorkerThreads 4 (newIocp\<lparr>iocp_handle := 9, connection_cb := Some (connectionCallback quietMachine)\<rparr>))\<lparr>iocp_running := False\<rparr>,
      stopping := Posting 4\<rparr>) \<tau> \<and> stopping \<tau> = Stopped"
proof -
  let ?io = "newIocp\<lparr>iocp_handle := 9, connection_cb := Some (connectionCallback quietMachine)\<rparr>"
  let ?\<sigma> = "(started 4 ?io (newServer 8080))\<lparr>core := (runWorkerThreads 4 ?io)\<lparr>iocp_running := False\<rparr>, stopping := Posting 4\<rparr>"
  have "iocp_step (started 4 ?io (newServer 8080)) ?\<sigma>"
    by (rule iocp_step.stop) (simp_all add: started_def stop_step_def runWorkerThreads_def newIocp_def)
  then have "port_reach (started 4 ?io (newServer 8080)) ?\<sigma>" by (rule port_reach.step [OF port_reach.start])
  from server_stop_returns [OF this] show ?thesis by simp
qed

text \<open>Programs of system calls that close nothing.\<close>

definition opens :: "sys_call \<Rightarrow> bool" where
  "opens c \<longleftrightarrow> (\<forall>s. c \<noteq> Closesocket s) \<and> c \<noteq> WSACleanup"

definition keeps_open :: "(history, 'a) state \<Rightarrow> bool" where
  "keeps_open f \<longleftrightarrow> (\<forall>h. \<exists>cs. snd (run_state f h) = h @ cs \<and> list_all opens cs)"

lemma keeps_open_basic [intro]:
  "opens c \<Longrightarrow> keeps_open (sys_call os c)" "keeps_open (cerr s)" "keeps_open (State_Monad.return x)"
  "keeps_open (formatMessage os e)"
  by (auto simp: keeps_open_def opens_def)

lemma keeps_open_bind [intro]:
  assumes "keeps_open f" "\<And>x. keeps_open (g x)"
  shows "keeps_open (State_Monad.bind f g)"
  unfolding keeps_open_def
proof
  fix h
  obtain x cs where 1: "run_state f h = (x, h @ cs)" "list_all opens cs"
    using assms(1) unfolding keeps_open_def by (metis prod.collapse)
  moreover obtain ds where "snd (run_state (g x) (h @ cs)) = (h @ cs) @ ds" "list_all opens ds"
    using assms(2) unfolding keeps_open_def by blast
  ultimately show "\<exists>cs. snd (run_state (State_Monad.bind f g) h) = h @ cs \<and> list_all opens cs"
    by (intro exI [of _ "cs @ ds"]) simp
qed

lemma keeps_open_if [intro]: "keeps_open f \<Longrightarrow> keeps_open g \<Longrightarrow> keeps_open (if b then f else g)"
  by simp

lemma opens_calls [simp]:
  "opens WSAStartup" "opens WSASocket" "opens (Setsockopt_reuse s)" "opens (Bind s p)" "opens (Listen s)"
  "opens CreateIoCompletionPort" "opens (Associate s k)" "opens WSAGetLastError" "opens GetLastError" "opens LocalFree"
  by (simp_all add: opens_def)

lemma keeps_open_report [intro]: "keeps_open (report os t)" "keeps_open (report_error os t)"
  unfolding report_def report_error_def getLastErrorString_def
  by (intro keeps_open_bind keeps_open_basic | simp split: option.split list.split | safe)+

lemma keeps_open_setup [intro]:
  "keeps_open (createSocket os)" "keeps_open (setReuseAddr os s)" "keeps_open (bindSocket os s p)"
  "keeps_open (startListening os s)" "keeps_open (setupPort os io)"
  unfolding createSocket_def checked_def setReuseAddr_def bindSocket_def startListening_def setupPort_def
  by (intro keeps_open_bind keeps_open_if keeps_open_basic keeps_open_report opens_calls)+

text \<open>The server has called Winsock's \<open>socket\<close> and closed nothing since.\<close>

definition holds_socket :: "server \<Rightarrow> bool" where
  "holds_socket s \<longleftrightarrow> \<not> srv_running s \<and> WSASocket \<in> set (done_calls (server_view s)) \<and>
     list_all opens (done_calls (server_view s))"

lemma holds_socket_step:
  assumes "holds_socket s" "keeps_open f" "with_history f s = (x, s')"
  shows "holds_socket s'"
proof -
  obtain cs where "snd (run_state f (done_calls (server_view s))) = done_calls (server_view s) @ cs" "list_all opens cs"
    using assms(2) unfolding keeps_open_def by blast
  with assms(1,3) show ?thesis by (auto simp: holds_socket_def with_history_def split: prod.splits)
qed

lemma created_holds_socket:
  assumes "with_history (sys_call os WSAStartup) (newServer p) = (r, s1)" "with_history (createSocket os) s1 = (sock, s2)"
  shows "holds_socket (s2\<lparr>listen_socket := sock\<rparr>)"
proof -
  obtain cs where "run_state (createSocket os) [WSAStartup] = (answer os [WSAStartup] WSASocket, [WSAStartup] @ WSASocket # cs)"
    "list_all reporting cs" using run_createSocket by blast
  moreover have "reporting c \<Longrightarrow> opens c" for c by (auto simp: reporting_def opens_def)
  ultimately show ?thesis
    using assms by (auto simp: holds_socket_def with_history_def newServer_def list_all_iff)
qed

lemma start_without_port:
  assumes "answer (winsock_of m) [] WSAStartup = 0" "\<And>h. answer (winsock_of m) h CreateIoCompletionPort = 0"
  shows "\<exists>s io. start m (newServer p, newIocp) = Raised (Runtime_error ''IOCP setup failed'') (s, io) \<and>
    holds_socket s \<and> \<not> iocp_running io"
proof -
  let ?os = "winsock_of m"
  obtain r s1 where 1: "with_history (sys_call ?os WSAStartup) (newServer p) = (r, s1)" by force
  obtain sock s2 where 2: "with_history (createSocket ?os) s1 = (sock, s2)" by force
  let ?s3 = "s2\<lparr>listen_socket := sock\<rparr>"
  obtain b s4 where 4: "with_history (setReuseAddr ?os sock) ?s3 = (b, s4)" by force
  obtain b s5 where 5: "with_history (bindSocket ?os (listen_socket s4) (srv_port s4)) s4 = (b, s5)" by force
  obtain b s6 where 6: "with_history (startListening ?os (listen_socket s5)) s5 = (b, s6)" by force
  obtain x s7 where 7: "with_history (setupPort ?os (newIocp :: server iocp)) s6 = (x, s7)" by (rule prod.exhaust)
  have "holds_socket s7"
    by (intro holds_socket_step [OF _ _ 7] holds_socket_step [OF _ _ 6] holds_socket_step [OF _ _ 5]
        holds_socket_step [OF _ _ 4] created_holds_socket [OF 1 2] keeps_open_setup)
  moreover have "r = 0" using 1 assms(1) by (auto simp: with_history_def newServer_def)
  moreover have "x = (False, (newIocp :: server iocp)\<lparr>iocp_handle := 0\<rparr>)"
    using 7 assms(2) by (auto simp: with_history_def setupPort_def split: prod.splits)
  ultimately show ?thesis
    using 1 2 4 5 6 7 by (simp add: start_def Let_def newIocp_def)
qed

text \<open>
  A start that fails for want of a completion port leaks: the process exits with code 1, and
  neither the listening socket is closed nor Winsock ended, since \<open>stop\<close> does nothing on a
  server that is not running.
\<close>

theorem failed_start_leaks:
  assumes "answer (winsock_of m) [] WSAStartup = 0" and "\<And>h. answer (winsock_of m) h CreateIoCompletionPort = 0"
  shows "\<exists>x. main m = Exited 1 x \<and> (\<forall>s. Closesocket s \<notin> set (done_calls (server_view (fst x)))) \<and>
    WSACleanup \<notin> set (done_calls (server_view (fst x))) \<and> WSASocket \<in> set (done_calls (server_view (fst x)))"
proof -
  obtain s io where start: "start m (newServer 8080, newIocp) = Raised (Runtime_error ''IOCP setup failed'') (s, io)"
    and s: "holds_socket s" "\<not> iocp_running io"
    using start_without_port [OF assms] by blast
  obtain u s1 where err: "with_history (cerr (''Error: '' @ ''IOCP setup failed'' @ [CHR 0x0A])) s = (u, s1)" by (rule prod.exhaust)
  have s1: "holds_socket s1" by (rule holds_socket_step [OF s(1) _ err]) (rule keeps_open_basic)
  then have "destroyServer m (s1, io) = (s1, io)"
    using s(2) by (simp add: destroyServer_def destroyPort_def stop_def holds_socket_def with_history_def stopPort_def)
  then have "main m = Exited 1 (s1, io)" using start err by (simp add: main_def)
  with s1 show ?thesis by (auto simp: holds_socket_def list_all_iff opens_def)
qed

theorem failed_start_leaks_witness:
  "\<exists>x. main (quietMachine\<lparr>winsock_of := \<lparr>answer = \<lambda>h c. 0, format_message = \<lambda>h c. None\<rparr>\<rparr>) = Exited 1 x"
  using failed_start_leaks [of "quietMachine\<lparr>winsock_of := \<lparr>answer = \<lambda>h c. 0, format_message = \<lambda>h c. None\<rparr>\<rparr>"]
  by auto

end
