(* ===== verification/Task_Queue.thy ===== *)
theory Task_Queue
  imports Messenger_Prelude
begin

text \<open>
  The task queue of the threaded server, \<open>ThreadSafeQueue\<close> of \<open>src/acos3/thread_server.h\<close>: a
  FIFO behind a mutex and a condition variable. Here each operation is the effect of its
  critical section; \<open>pop\<close> is None while it has to wait. The interleavings are in
  \<open>Thread_Server\<close>.
\<close>

record ClientTask =
  clientSocket :: SOCKET
  task_message :: string

record ThreadSafeQueue =
  tasks :: "ClientTask list"
  stopFlag :: bool

definition newQueue :: ThreadSafeQueue where
  "newQueue = \<lparr>tasks = [], stopFlag = False\<rparr>"

text \<open>The task that tells the consumer to leave.\<close>

definition noTask :: ClientTask where
  "noTask = \<lparr>clientSocket = INVALID_SOCKET, task_message = []\<rparr>"

definition push :: "ClientTask \<Rightarrow> ThreadSafeQueue \<Rightarrow> ThreadSafeQueue" where
  "push task q = q\<lparr>tasks := tasks q @ [task]\<rparr>"

definition ready :: "ThreadSafeQueue \<Rightarrow> bool" where
  "ready q \<longleftrightarrow> tasks q \<noteq> [] \<or> stopFlag q"

definition pop :: "ThreadSafeQueue \<Rightarrow> (ClientTask \<times> ThreadSafeQueue) option" where
  "pop q =
     (if \<not> ready q then None
      else case tasks q of
             [] \<Rightarrow> Some (noTask, q)
           | task # rest \<Rightarrow> Some (task, q\<lparr>tasks := rest\<rparr>))"

definition empty :: "ThreadSafeQueue \<Rightarrow> bool" where
  "empty q \<longleftrightarrow> tasks q = []"

definition size_of :: "ThreadSafeQueue \<Rightarrow> nat" where
  "size_of q = length (tasks q)"

definition stopQueue :: "ThreadSafeQueue \<Rightarrow> ThreadSafeQueue" where
  "stopQueue q = q\<lparr>stopFlag := True\<rparr>"

section \<open>The contract of a stoppable queue\<close>

text \<open>
  What the producers and the consumer rely on, for any representation \<open>'q\<close>: \<open>contents\<close> is the
  sequence of elements waiting, and \<open>sentinel\<close> what a stopped empty queue gives.
\<close>

locale stoppable_queue =
  fixes contents :: "'q \<Rightarrow> 'a list" and stopped :: "'q \<Rightarrow> bool" and sentinel :: 'a
    and enq :: "'a \<Rightarrow> 'q \<Rightarrow> 'q" and deq :: "'q \<Rightarrow> ('a \<times> 'q) option" and halt :: "'q \<Rightarrow> 'q"
  assumes enq_contents: "contents (enq x q) = contents q @ [x]"
    and enq_stopped: "stopped (enq x q) = stopped q"
    and halt_contents: "contents (halt q) = contents q"
    and halt_stopped: "stopped (halt q)"
    and deq_cons: "contents q = x # xs \<Longrightarrow> \<exists>q'. deq q = Some (x, q') \<and> contents q' = xs \<and> stopped q' = stopped q"
    and deq_blocks: "contents q = [] \<Longrightarrow> \<not> stopped q \<Longrightarrow> deq q = None"
    and deq_sentinel: "contents q = [] \<Longrightarrow> stopped q \<Longrightarrow> deq q = Some (sentinel, q)"
begin

text \<open>Dequeuing up to \<open>n\<close> times, as long as there is something to take.\<close>

fun take_many :: "nat \<Rightarrow> 'q \<Rightarrow> 'a list \<times> 'q" where
  "take_many 0 q = ([], q)"
| "take_many (Suc n) q =
     (case deq q of
        None \<Rightarrow> ([], q)
      | Some (x, q') \<Rightarrow> (case take_many n q' of (xs, r) \<Rightarrow> (x # xs, r)))"

lemma take_many_contents:
  "n \<le> length (contents q) \<Longrightarrow>
   fst (take_many n q) = take n (contents q) \<and> contents (snd (take_many n q)) = drop n (contents q) \<and>
   stopped (snd (take_many n q)) = stopped q"
proof (induction n arbitrary: q)
  case (Suc n)
  then obtain x xs where xs: "contents q = x # xs" by (cases "contents q") auto
  from deq_cons [OF this] obtain q' where q': "deq q = Some (x, q')" "contents q' = xs" "stopped q' = stopped q" by blast
  with Suc.IH [of q'] Suc.prems xs show ?case by (cases "take_many n q'") simp
qed simp

lemma fold_enq: "contents (fold enq xs q) = contents q @ xs" "stopped (fold enq xs q) = stopped q"
  by (induction xs arbitrary: q) (simp_all add: enq_contents enq_stopped)

lemma deq_None: "deq q = None \<longleftrightarrow> contents q = [] \<and> \<not> stopped q"
  using deq_cons [of q] deq_blocks deq_sentinel by (cases "contents q"; cases "stopped q") fastforce+

text \<open>A queue that is filled and then stopped gives what was put in, in order, and then only sentinels.\<close>

lemma drained:
  assumes "contents q = []"
  shows "fst (take_many (length xs) (halt (fold enq xs q))) = xs \<and>
    deq (snd (take_many (length xs) (halt (fold enq xs q)))) =
      Some (sentinel, snd (take_many (length xs) (halt (fold enq xs q))))"
  using assms take_many_contents [of "length xs" "halt (fold enq xs q)"]
  by (simp add: halt_contents fold_enq halt_stopped deq_sentinel)

end

interpretation taskQueue: stoppable_queue tasks stopFlag noTask push pop stopQueue
  by unfold_locales (auto simp: push_def pop_def ready_def stopQueue_def split: list.split)

section \<open>Properties\<close>

text \<open>The queue as its consumer empties it: up to \<open>n\<close> calls of \<open>pop\<close> that do not wait.\<close>

primrec popMany :: "nat \<Rightarrow> ThreadSafeQueue \<Rightarrow> ClientTask list \<times> ThreadSafeQueue" where
  "popMany 0 q = ([], q)"
| "popMany (Suc n) q =
     (case pop q of
        None \<Rightarrow> ([], q)
      | Some (x, q') \<Rightarrow> (case popMany n q' of (xs, r) \<Rightarrow> (x # xs, r)))"

lemma popMany_eq: "popMany n q = taskQueue.take_many n q"
  by (induction n arbitrary: q) (simp_all split: option.split)

text \<open>
  The queue is first in, first out, and loses nothing: the tasks pushed on an empty queue
  before \<open>stop\<close> are popped in the order of the pushes, and every later \<open>pop\<close> gives the empty
  task that ends the consumer. \<open>pop\<close> waits exactly when the queue is empty and not stopped.
\<close>

theorem queue_fifo_drains:
  "fst (popMany (length ts) (stopQueue (fold push ts newQueue))) = ts \<and>
   pop (snd (popMany (length ts + k) (stopQueue (fold push ts newQueue)))) =
     Some (noTask, snd (popMany (length ts + k) (stopQueue (fold push ts newQueue)))) \<and>
   (pop q = None \<longleftrightarrow> empty q \<and> \<not> stopFlag q)"
proof -
  let ?q = "stopQueue (fold push ts newQueue)"
  let ?d = "snd (popMany (length ts) ?q)"
  have new: "tasks newQueue = []" by (simp add: newQueue_def)
  have stopped: "popMany k ?d = (replicate k noTask, ?d)" for k
    using taskQueue.drained [OF new, of ts] by (induction k) (simp_all add: popMany_eq)
  have "popMany (n + k) r = (case popMany n r of (xs, s) \<Rightarrow> case popMany k s of (ys, t) \<Rightarrow> (xs @ ys, t))"
    if "length (fst (popMany n r)) = n" for n r
    using that
  proof (induction n arbitrary: r)
    case (Suc n)
    then show ?case
      by (cases "pop r") (auto split: prod.splits dest!: Suc.IH)
  qed simp
  from this [of "length ts" ?q] have "snd (popMany (length ts + k) ?q) = ?d"
    using taskQueue.drained [OF new, of ts] stopped [of k] by (simp add: popMany_eq split: prod.splits)
  then show ?thesis
    using taskQueue.drained [OF new, of ts] taskQueue.deq_None [of q] by (simp add: popMany_eq empty_def)
qed

end
