(* ===== verification/Thread_Server.thy ===== *)
theory Thread_Server
  imports Task_Queue Socket_Utils Step_Systems
begin

text \<open>
  The threaded server, \<open>src/acos3/thread_server.h\<close> and \<open>thread_server.cpp\<close>: one thread per
  client puts the received messages in the task queue, one worker thread takes them out and
  answers, and \<open>closeServer\<close> stops it all.

  The sequential operations are state-monad programs over the history of system calls. The
  second part interleaves the worker, the thread in \<open>closeServer\<close> and the producers, one step
  per access to the shared flags, the mutex and the condition variable.
\<close>

section \<open>Sequential operations\<close>

record thread_server =
  serverSocket :: SOCKET
  ts_port :: int
  isRunning :: bool

definition newThreadServer :: "int \<Rightarrow> thread_server" where
  "newThreadServer p = \<lparr>serverSocket = INVALID_SOCKET, ts_port = p, isRunning = False\<rparr>"

definition openSocket :: "winsock \<Rightarrow> thread_server \<Rightarrow> (history, bool \<times> thread_server) state" where
  "openSocket os srv = do {
     s \<leftarrow> sys_call os Socket;
     let srv1 = srv\<lparr>serverSocket := s\<rparr>;
     if s = INVALID_SOCKET then do {
       _ \<leftarrow> errorLine os ''Socket creation failed: '';
       _ \<leftarrow> sys_call os WSACleanup;
       State_Monad.return (False, srv1)
     }
     else State_Monad.return (True, srv1)
   }"

text \<open>A failed \<open>bind\<close> or \<open>listen\<close> closes the socket and ends Winsock.\<close>

definition guardCall :: "winsock \<Rightarrow> SOCKET \<Rightarrow> sys_call \<Rightarrow> string \<Rightarrow> (history, bool) state" where
  "guardCall os s c t = do {
     r \<leftarrow> sys_call os c;
     if r = SOCKET_ERROR then do {
       _ \<leftarrow> errorLine os t;
       _ \<leftarrow> sys_call os (Closesocket s);
       _ \<leftarrow> sys_call os WSACleanup;
       State_Monad.return False
     }
     else State_Monad.return True
   }"

definition bindServer :: "winsock \<Rightarrow> thread_server \<Rightarrow> (history, bool) state" where
  "bindServer os srv =
     guardCall os (serverSocket srv) (Bind (serverSocket srv) (word_of_int (ts_port srv))) ''Bind failed: ''"

definition listenServer :: "winsock \<Rightarrow> thread_server \<Rightarrow> (history, bool) state" where
  "listenServer os srv = do {
     ok \<leftarrow> guardCall os (serverSocket srv) (Listen (serverSocket srv)) ''Listen failed: '';
     if ok then do {
       _ \<leftarrow> cout (''Server is listening on port '' @ int_to_string (ts_port srv) @ ''...'' @ newline);
       State_Monad.return True
     }
     else State_Monad.return False
   }"

definition startServer :: "winsock \<Rightarrow> thread_server \<Rightarrow> (history, bool \<times> thread_server) state" where
  "startServer os srv = do {
     r \<leftarrow> sys_call os WSAStartup;
     if r \<noteq> 0 then do {
       _ \<leftarrow> cerr (''WSAStartup failed.'' @ newline);
       State_Monad.return (False, srv)
     }
     else do {
       (created, srv1) \<leftarrow> openSocket os srv;
       if \<not> created then State_Monad.return (False, srv1)
       else do {
         bound \<leftarrow> bindServer os srv1;
         if \<not> bound then State_Monad.return (False, srv1)
         else do {
           listening \<leftarrow> listenServer os srv1;
           if \<not> listening then State_Monad.return (False, srv1)
           else State_Monad.return (True, srv1\<lparr>isRunning := True\<rparr>)
         }
       }
     }
   }"

definition WSAECONNRESET :: u64 where "WSAECONNRESET = 10054"
definition WSAENOTSOCK :: u64 where "WSAENOTSOCK = 10038"
definition WSAENOTCONN :: u64 where "WSAENOTCONN = 10057"

definition showSocket :: "SOCKET \<Rightarrow> string" where
  "showSocket s = to_string (unat s)"

definition sendResponse :: "winsock \<Rightarrow> SOCKET \<Rightarrow> string \<Rightarrow> (history, unit) state" where
  "sendResponse os client response =
     (if client = INVALID_SOCKET then State_Monad.return ()
      else do {
        r \<leftarrow> sys_call os (Send client response);
        if r = SOCKET_ERROR then do {
          e \<leftarrow> sys_call os WSAGetLastError;
          if e \<noteq> WSAECONNRESET \<and> e \<noteq> WSAENOTSOCK then
            cerr (''Send failed for client '' @ showSocket client @ '': '' @ int_to_string (sint (ucast e :: u32)) @ newline)
          else State_Monad.return ()
        }
        else State_Monad.return ()
      })"

text \<open>What the worker does with a task between two visits to the queue.\<close>

definition processTask :: "winsock \<Rightarrow> ClientTask \<Rightarrow> (history, unit) state" where
  "processTask os task = do {
     _ \<leftarrow> cout (''[Consumer] Processing task from client '' @ showSocket (clientSocket task) @ '': '' @ task_message task @ newline);
     let processed = ''PROCESSED: '' @ task_message task;
     _ \<leftarrow> cout (''[Consumer] Sending response to client '' @ showSocket (clientSocket task) @ '': '' @ processed @ newline);
     sendResponse os (clientSocket task) processed
   }"

text \<open>
  \<open>handleClient\<close>: each turn reads the flag and then blocks in \<open>recv\<close>. \<open>turns\<close> says what the flag
  is and what \<open>recv\<close> answers in each turn; when it ends, the thread is still in \<open>recv\<close>.
\<close>

datatype recv_result = Received string | Disconnected | Recv_error u64

fun clientTurns :: "SOCKET \<Rightarrow> (bool \<times> recv_result) list \<Rightarrow> ThreadSafeQueue \<Rightarrow> history \<Rightarrow> bool \<times> ThreadSafeQueue \<times> history" where
  "clientTurns s [] q h = (False, q, h)"
| "clientTurns s ((flag, r) # turns) q h =
     (if \<not> flag then (True, q, h)
      else case r of
        Received msg \<Rightarrow>
          clientTurns s turns (push \<lparr>clientSocket = s, task_message = msg\<rparr> q)
            (h @ [Cout (''[Producer] Received from client '' @ showSocket s @ '': '' @ msg @
                        '' (queue size: '' @ to_string (size_of q) @ '')'' @ newline)])
      | Disconnected \<Rightarrow> (True, q, h @ [Cout (''Client disconnected. Socket: '' @ showSocket s @ newline)])
      | Recv_error e \<Rightarrow>
          (True, q, h @ [WSAGetLastError, if e = WSAECONNRESET \<or> e = WSAENOTCONN
                         then Cout (''Client connection lost. Socket: '' @ showSocket s @ newline)
                         else Cerr (''Recv failed for client '' @ showSocket s @ '': '' @ int_to_string (sint (ucast e :: u32)) @ newline)]))"

definition handleClient :: "SOCKET \<Rightarrow> (bool \<times> recv_result) list \<Rightarrow> ThreadSafeQueue \<Rightarrow> history \<Rightarrow> bool \<times> ThreadSafeQueue \<times> history" where
  "handleClient s turns q h =
     (case clientTurns s turns q (h @ [Cout (''Client connected. Socket: '' @ showSocket s @ newline)]) of
        (finished, q1, h1) \<Rightarrow> (finished, q1, if finished then h1 @ [Closesocket s] else h1))"

text \<open>
  The accept loop of \<open>run\<close>: each turn gives the flag, the result of \<open>accept\<close>, and the flag as
  the error branch reads it again. The result lists the sockets a thread was started for.
\<close>

fun acceptTurns :: "winsock \<Rightarrow> (bool \<times> SOCKET \<times> bool) list \<Rightarrow> SOCKET list \<Rightarrow> (history, SOCKET list) state" where
  "acceptTurns os [] started = State_Monad.return started"
| "acceptTurns os ((flag, s, again) # turns) started =
     (if \<not> flag then State_Monad.return started
      else if s = INVALID_SOCKET then
        (if again then do {
           _ \<leftarrow> errorLine os ''Accept failed: '';
           acceptTurns os turns started
         }
         else acceptTurns os turns started)
      else do {
        _ \<leftarrow> cout (''New client connected. Socket: '' @ showSocket s @ '' (Active threads: '' @
               to_string (length started + 1) @ '')'' @ newline);
        acceptTurns os turns (started @ [s])
      })"

definition runServer :: "winsock \<Rightarrow> thread_server \<Rightarrow> (bool \<times> SOCKET \<times> bool) list \<Rightarrow> (history, SOCKET list) state" where
  "runServer os srv turns =
     (if \<not> isRunning srv then State_Monad.return []
      else do {
        _ \<leftarrow> cout (''Worker thread created. Ready to accept connections...'' @ newline);
        acceptTurns os turns []
      })"

section \<open>The worker, the closing thread and the producers\<close>

text \<open>
  Where the worker stands in \<open>processTasks\<close> and \<open>pop\<close>: at the two halves of the loop test,
  before the lock, in front of the predicate with the lock held, between a false predicate and
  the wait (lock still held), asleep in \<open>cv.wait\<close>, with a task in hand, returned.
\<close>

datatype worker_pc = At_flag | At_empty | At_lock | At_predicate | Before_wait | Asleep | With_task ClientTask | Finished

text \<open>
  Where \<open>closeServer\<close> stands: not begun, after \<open>isRunning.store(false)\<close>, after the store of the
  stop flag, after \<open>notify_all\<close>, waiting in \<open>join\<close>, returned.
\<close>

datatype close_pc = Not_closing | Flag_cleared | Stop_stored | Notified | In_join | Closed

record ts_sys =
  srv :: thread_server
  queue :: ThreadSafeQueue
  locked :: bool
  worker_at :: worker_pc
  closing :: close_pc
  pushed :: "ClientTask list"
  calls :: history

text \<open>\<open>notify_one\<close> and \<open>notify_all\<close> wake the worker if it is asleep; it then takes the lock again.\<close>

definition notify :: "ts_sys \<Rightarrow> ts_sys" where
  "notify \<sigma> = (if worker_at \<sigma> = Asleep then \<sigma>\<lparr>worker_at := At_lock\<rparr> else \<sigma>)"

definition worker_move :: "winsock \<Rightarrow> ts_sys \<Rightarrow> ts_sys option" where
  "worker_move os \<sigma> =
     (case worker_at \<sigma> of
        At_flag \<Rightarrow> Some (\<sigma>\<lparr>worker_at := (if isRunning (srv \<sigma>) then At_lock else At_empty)\<rparr>)
      | At_empty \<Rightarrow> Some (\<sigma>\<lparr>worker_at := (if empty (queue \<sigma>) then Finished else At_lock)\<rparr>)
      | At_lock \<Rightarrow> (if locked \<sigma> then None else Some (\<sigma>\<lparr>worker_at := At_predicate, locked := True\<rparr>))
      | At_predicate \<Rightarrow>
          (case pop (queue \<sigma>) of
             None \<Rightarrow> Some (\<sigma>\<lparr>worker_at := Before_wait\<rparr>)
           | Some (task, q) \<Rightarrow> Some (\<sigma>\<lparr>worker_at := With_task task, queue := q, locked := False\<rparr>))
      | Before_wait \<Rightarrow> Some (\<sigma>\<lparr>worker_at := Asleep, locked := False\<rparr>)
      | Asleep \<Rightarrow> None
      | With_task task \<Rightarrow>
          (if task = noTask then Some (\<sigma>\<lparr>worker_at := Finished\<rparr>)
           else Some (\<sigma>\<lparr>worker_at := At_flag, calls := snd (run_state (processTask os task) (calls \<sigma>))\<rparr>))
      | Finished \<Rightarrow> None)"

definition close_move :: "winsock \<Rightarrow> ts_sys \<Rightarrow> ts_sys option" where
  "close_move os \<sigma> =
     (case closing \<sigma> of
        Not_closing \<Rightarrow>
          (if \<not> isRunning (srv \<sigma>) then None
           else Some (\<sigma>\<lparr>srv := (srv \<sigma>)\<lparr>isRunning := False\<rparr>, closing := Flag_cleared,
                         calls := calls \<sigma> @ [Cout (''Stopping server...'' @ newline)]\<rparr>))
      | Flag_cleared \<Rightarrow> Some (\<sigma>\<lparr>queue := stopQueue (queue \<sigma>), closing := Stop_stored\<rparr>)
      | Stop_stored \<Rightarrow> Some (notify (\<sigma>\<lparr>closing := Notified\<rparr>))
      | Notified \<Rightarrow>
          Some (if serverSocket (srv \<sigma>) \<noteq> INVALID_SOCKET
                then \<sigma>\<lparr>srv := (srv \<sigma>)\<lparr>serverSocket := INVALID_SOCKET\<rparr>, closing := In_join,
                       calls := calls \<sigma> @ [Closesocket (serverSocket (srv \<sigma>))]\<rparr>
                else \<sigma>\<lparr>closing := In_join\<rparr>)
      | In_join \<Rightarrow>
          (if worker_at \<sigma> = Finished
           then Some (\<sigma>\<lparr>closing := Closed, calls := calls \<sigma> @ [WSACleanup, Cout (''Server stopped.'' @ newline)]\<rparr>)
           else None)
      | Closed \<Rightarrow> None)"

text \<open>The destructor calls \<open>closeServer\<close> from its beginning.\<close>

definition destroy_move :: "winsock \<Rightarrow> ts_sys \<Rightarrow> ts_sys option" where
  "destroy_move os \<sigma> = close_move os (\<sigma>\<lparr>closing := Not_closing\<rparr>)"

definition getQueueSize :: "ts_sys \<Rightarrow> nat" where
  "getQueueSize \<sigma> = size_of (queue \<sigma>)"

text \<open>A client's thread pushes what it received: a valid socket and a message that is not empty.\<close>

definition push_move :: "ClientTask \<Rightarrow> ts_sys \<Rightarrow> ts_sys option" where
  "push_move task \<sigma> =
     (if locked \<sigma> then None
      else Some (notify (\<sigma>\<lparr>queue := push task (queue \<sigma>), pushed := pushed \<sigma> @ [task]\<rparr>)))"

inductive ts_step :: "winsock \<Rightarrow> ts_sys \<Rightarrow> ts_sys \<Rightarrow> bool" for os where
  worker: "worker_move os \<sigma> = Some \<tau> \<Longrightarrow> ts_step os \<sigma> \<tau>"
| close: "close_move os \<sigma> = Some \<tau> \<Longrightarrow> ts_step os \<sigma> \<tau>"

inductive ts_push :: "ts_sys \<Rightarrow> ts_sys \<Rightarrow> bool" where
  push: "push_move task \<sigma> = Some \<tau> \<Longrightarrow> clientSocket task \<noteq> INVALID_SOCKET \<Longrightarrow> task_message task \<noteq> [] \<Longrightarrow> ts_push \<sigma> \<tau>"

text \<open>
  The worker has just been started by \<open>run\<close>, on the server that \<open>startServer\<close> left. A thread in
  \<open>cv.wait\<close> may also wake up without being notified (\<open>wake\<close>).
\<close>

definition ts_started :: "thread_server \<Rightarrow> history \<Rightarrow> ts_sys" where
  "ts_started s h = \<lparr>srv = s, queue = newQueue, locked = False, worker_at = At_flag, closing = Not_closing,
     pushed = [], calls = h\<rparr>"

inductive ts_reach :: "winsock \<Rightarrow> history \<Rightarrow> ts_sys \<Rightarrow> bool" for os h where
  started: "isRunning s \<Longrightarrow> serverSocket s \<noteq> INVALID_SOCKET \<Longrightarrow> ts_reach os h (ts_started s h)"
| step: "ts_reach os h \<sigma> \<Longrightarrow> ts_step os \<sigma> \<tau> \<Longrightarrow> ts_reach os h \<tau>"
| push: "ts_reach os h \<sigma> \<Longrightarrow> ts_push \<sigma> \<tau> \<Longrightarrow> ts_reach os h \<tau>"
| wake: "ts_reach os h \<sigma> \<Longrightarrow> worker_at \<sigma> = Asleep \<Longrightarrow> ts_reach os h (\<sigma>\<lparr>worker_at := At_lock\<rparr>)"

end
