(* ===== verification/Thread_Client.thy ===== *)
theory Thread_Client
  imports Thread_Server
begin

text \<open>
  The programs around the threaded server: the console client \<open>src/acos3/client.cpp\<close> and
  \<open>src/acos3/run_thread_server.cpp\<close>. The client keeps one buffer of 1024
  characters, into which it reads both the lines and the answers.
\<close>

section \<open>Standard input\<close>

text \<open>\<open>std::cin\<close>: what will still be read, and whether the stream is good.\<close>

record cin =
  pending :: string
  good :: bool

text \<open>
  \<open>getline(buffer, n)\<close>, in the order in which the standard tests its ends: end of input, line
  feed, buffer full. The second and third case leave the stream bad, as does an empty input.
  The result is what is stored, without the zero that follows it; a bad stream stores nothing.
\<close>

definition cinGetline :: "nat \<Rightarrow> cin \<Rightarrow> string \<times> cin" where
  "cinGetline n c =
     (if \<not> good c then ([], c)
      else let line = takeWhile (\<lambda>x. x \<noteq> CHR 0x0A) (pending c) in
        if length line < n \<and> length line < length (pending c)
        then (line, c\<lparr>pending := drop (length line + 1) (pending c)\<rparr>)
        else if length line < n then (line, \<lparr>pending = [], good = False\<rparr>)
        else (take (n - 1) line, \<lparr>pending = drop (n - 1) (pending c), good = False\<rparr>))"

section \<open>The buffer\<close>

definition BUFFER :: nat where "BUFFER = 1024"

text \<open>Characters written from the front of the buffer.\<close>

definition store :: "string \<Rightarrow> string \<Rightarrow> string" where
  "store s buffer = s @ drop (length s) buffer"

text \<open>
  How the client stands: it has returned from \<open>main\<close>, it waits in \<open>recv\<close>, or it has written the
  zero at \<open>buffer[1024]\<close>, one past the end, after which nothing is defined.
\<close>

datatype client_end = Exit int | In_recv | Past_buffer

text \<open>\<open>failWith\<close> reports an error with its code, releases what is open and returns 1.\<close>

definition failWith :: "winsock \<Rightarrow> SOCKET \<Rightarrow> string \<Rightarrow> history \<Rightarrow> client_end \<times> history" where
  "failWith os s t h =
     (Exit 1, snd (run_state (errorLine os t) h) @ [Closesocket s, WSACleanup])"

text \<open>
  The loop: \<open>answers\<close> is what the calls of \<open>recv\<close> give in turn, each at most what fits the
  buffer; when it ends the client waits.
\<close>

fun clientLoop :: "winsock \<Rightarrow> SOCKET \<Rightarrow> recv_result list \<Rightarrow> cin \<Rightarrow> string \<Rightarrow> history \<Rightarrow> client_end \<times> history" where
  "clientLoop os s answers c buffer h =
     (case cinGetline BUFFER c of (line, c1) \<Rightarrow>
        let buffer1 = store (line @ [CHR 0x00]) buffer;
            text = c_str buffer1;
            h1 = h @ [Cout ''> ''];
            h2 = h1 @ [Send s text] in
        if text = ''exit''
        then (Exit 0, h1 @ [Cout (''Closing connection...'' @ newline), Closesocket s, WSACleanup])
        else if answer os h1 (Send s text) = SOCKET_ERROR then failWith os s ''Send failed: '' h2
        else case answers of
               [] \<Rightarrow> (In_recv, h2)
             | Received data # later \<Rightarrow>
                 let got = take BUFFER data;
                     buffer2 = store (got @ [CHR 0x00]) buffer1 in
                 if length got < BUFFER
                 then clientLoop os s later c1 buffer2
                        (h2 @ [Cout (''Server echo: '' @ c_str buffer2 @ newline)])
                 else (Past_buffer, h2)
             | Disconnected # later \<Rightarrow>
                 clientLoop os s later c1 buffer1 (h2 @ [Cout (''Server disconnected.'' @ newline)])
             | Recv_error e # later \<Rightarrow>
                 (Exit 1, h2 @ [Cerr ''Recv failed: '', WSAGetLastError, Cerr (int_to_string (sint (ucast e :: u32)) @ newline),
                    Closesocket s, WSACleanup]))"

declare clientLoop.simps [simp del]

definition clientMain :: "winsock \<Rightarrow> recv_result list \<Rightarrow> cin \<Rightarrow> string \<Rightarrow> history \<Rightarrow> client_end \<times> history" where
  "clientMain os answers c buffer h =
     (let h1 = h @ [WSAStartup] in
      if answer os h WSAStartup \<noteq> 0 then (Exit 1, h1 @ [Cerr (''WSAStartup failed.'' @ newline)])
      else
        let s = answer os h1 Socket; h2 = h1 @ [Socket] in
        if s = INVALID_SOCKET
        then (Exit 1, snd (run_state (errorLine os ''Socket creation failed: '') h2) @ [WSACleanup])
        else
          let c_call = Connect s ''127.0.0.1'' 8080 in
          if answer os h2 c_call = SOCKET_ERROR then failWith os s ''Connect failed: '' (h2 @ [c_call])
          else clientLoop os s answers c buffer
                 (h2 @ [c_call, Cout (''Connected to server. Type messages to echo (type '' @ [CHR 0x27] @ ''exit'' @
                    [CHR 0x27] @ '' to quit).'' @ newline)]))"

section \<open>The program of the server\<close>

text \<open>
  \<open>main\<close> of \<open>run_thread_server.cpp\<close> up to the thread that serves: the exit code, or the server
  that its thread runs \<open>run\<close> on. After a key it calls \<open>closeServer\<close>.
\<close>

definition threadMain :: "winsock \<Rightarrow> history \<Rightarrow> int + (thread_server \<times> history)" where
  "threadMain os h =
     (case run_state (startServer os (newThreadServer 8080)) h of
        ((False, s), h1) \<Rightarrow> Inl 1
      | ((True, s), h1) \<Rightarrow> Inr (s, h1 @ [Cout (''Server started. Press Enter to stop...'' @ newline)]))"

text \<open>
  The end of \<open>main\<close>: once \<open>closeServer\<close> has returned it joins the serving thread, whose loop (\<open>turns\<close>,
  as in \<open>acceptTurns\<close>) must have read a cleared flag; then the destructor calls \<open>closeServer\<close> again.
\<close>

definition threadMainEnd :: "winsock \<Rightarrow> (bool \<times> SOCKET \<times> bool) list \<Rightarrow> ts_sys \<Rightarrow> (int \<times> ts_sys) option" where
  "threadMainEnd os turns \<sigma> =
     (if closing \<sigma> = Closed \<and> list_ex (\<lambda>t. \<not> fst t) turns
      then let \<sigma>1 = \<sigma>\<lparr>calls := calls \<sigma> @ [Cout (''Server stopped.'' @ newline)]\<rparr> in
        Some (0, case destroy_move os \<sigma>1 of None \<Rightarrow> \<sigma>1 | Some \<tau> \<Rightarrow> \<tau>)
      else None)"

end
