(* ===== verification/Thread_Server_Thms.thy ===== *)
theory Thread_Server_Thms
  imports Thread_Server
begin

text \<open>
  What the threaded server promises: a start that fails leaves nothing open, clients' messages
  are answered in order and once, the worker empties the queue before it ends; and when
  \<open>closeServer\<close> returns, and when it can hang.
\<close>

section \<open>The answer to a task\<close>

definition answerTo :: "ClientTask \<Rightarrow> SOCKET \<times> string" where
  "answerTo task = (clientSocket task, ''PROCESSED: '' @ task_message task)"

definition real_task :: "ClientTask \<Rightarrow> bool" where
  "real_task task \<longleftrightarrow> clientSocket task \<noteq> INVALID_SOCKET \<and> task_message task \<noteq> []"

lemma noTask_not_real [simp]: "\<not> real_task noTask" "real_task t \<Longrightarrow> t \<noteq> noTask"
  by (auto simp: real_task_def noTask_def)

lemma responses_processTask:
  "real_task task \<Longrightarrow>
   responses (snd (run_state (processTask os task) h)) = responses h @ [answerTo task]"
  by (simp add: processTask_def sendResponse_def real_task_def answerTo_def Let_def split: prod.split)

section \<open>The invariant\<close>

fun in_hand :: "worker_pc \<Rightarrow> ClientTask list" where
  "in_hand (With_task task) = (if task = noTask then [] else [task])"
| "in_hand _ = []"

text \<open>
  The lock is held only inside \<open>pop\<close>; \<open>closing\<close> and the two flags move together; every task
  that was pushed has been answered, is in the worker's hand or in the queue, in this order;
  and the worker leaves, or takes the empty task, only after the server was told to stop.
\<close>

definition ts_inv :: "history \<Rightarrow> ts_sys \<Rightarrow> bool" where
  "ts_inv h \<sigma> \<longleftrightarrow>
     (locked \<sigma> \<longleftrightarrow> worker_at \<sigma> = At_predicate \<or> worker_at \<sigma> = Before_wait) \<and>
     (isRunning (srv \<sigma>) \<longleftrightarrow> closing \<sigma> = Not_closing) \<and>
     (stopFlag (queue \<sigma>) \<longleftrightarrow> closing \<sigma> \<noteq> Not_closing \<and> closing \<sigma> \<noteq> Flag_cleared) \<and>
     responses h @ map answerTo (pushed \<sigma>) =
       responses (calls \<sigma>) @ map answerTo (in_hand (worker_at \<sigma>) @ tasks (queue \<sigma>)) \<and>
     list_all real_task (in_hand (worker_at \<sigma>) @ tasks (queue \<sigma>)) \<and>
     (worker_at \<sigma> = With_task noTask \<longrightarrow> stopFlag (queue \<sigma>)) \<and>
     (worker_at \<sigma> = Finished \<or> worker_at \<sigma> = At_empty \<longrightarrow> \<not> isRunning (srv \<sigma>)) \<and>
     (closing \<sigma> = Closed \<longrightarrow> worker_at \<sigma> = Finished)"

lemma pop_cases:
  obtains "pop q = None" "tasks q = []" "\<not> stopFlag q"
  | "pop q = Some (noTask, q)" "tasks q = []" "stopFlag q"
  | t ts where "tasks q = t # ts" "pop q = Some (t, q\<lparr>tasks := ts\<rparr>)"
  by (cases "tasks q"; cases "stopFlag q") (auto simp: pop_def ready_def)

lemma queue_simps [simp]:
  "tasks (push t q) = tasks q @ [t]" "stopFlag (push t q) = stopFlag q"
  "tasks (stopQueue q) = tasks q" "stopFlag (stopQueue q)" "empty q \<longleftrightarrow> tasks q = []"
  by (simp_all add: push_def stopQueue_def empty_def)

lemma notify_simps [simp]:
  "srv (notify \<sigma>) = srv \<sigma>" "queue (notify \<sigma>) = queue \<sigma>" "locked (notify \<sigma>) = locked \<sigma>"
  "closing (notify \<sigma>) = closing \<sigma>" "pushed (notify \<sigma>) = pushed \<sigma>" "calls (notify \<sigma>) = calls \<sigma>"
  "worker_at (notify \<sigma>) = (if worker_at \<sigma> = Asleep then At_lock else worker_at \<sigma>)"
  by (simp_all add: notify_def)

lemma ts_inv_worker:
  assumes inv: "ts_inv h \<sigma>" and move: "worker_move os \<sigma> = Some \<tau>"
  shows "ts_inv h \<tau>"
proof (cases "worker_at \<sigma>")
  case At_predicate
  show ?thesis
    by (rule pop_cases [of "queue \<sigma>"])
      (use inv move At_predicate in \<open>auto simp: ts_inv_def worker_move_def\<close>)
next
  case (With_task task)
  then show ?thesis
    using inv move by (auto simp: ts_inv_def worker_move_def responses_processTask split: if_splits)
qed (use inv move in \<open>auto simp: ts_inv_def worker_move_def split: if_splits\<close>)

lemma ts_inv_close: "ts_inv h \<sigma> \<Longrightarrow> close_move os \<sigma> = Some \<tau> \<Longrightarrow> ts_inv h \<tau>"
  by (auto simp: ts_inv_def close_move_def split: close_pc.splits if_splits)

lemma ts_inv_push:
  assumes inv: "ts_inv h \<sigma>" and push: "ts_push \<sigma> \<tau>"
  shows "ts_inv h \<tau>"
  using push
proof cases
  case (push task)
  let ?w = "if worker_at \<sigma> = Asleep then At_lock else worker_at \<sigma>"
  have \<tau>: "\<not> locked \<sigma>" "\<tau> = notify (\<sigma>\<lparr>queue := push task (queue \<sigma>), pushed := pushed \<sigma> @ [task]\<rparr>)"
    using push(1) by (auto simp: push_move_def split: if_splits)
  have hand: "in_hand ?w = in_hand (worker_at \<sigma>)" by simp
  have "(responses h @ map answerTo (pushed \<sigma>)) @ [answerTo task] =
    (responses (calls \<sigma>) @ map answerTo (in_hand (worker_at \<sigma>) @ tasks (queue \<sigma>))) @ [answerTo task]"
    using inv by (simp only: ts_inv_def)
  then have order: "responses h @ map answerTo (pushed \<sigma> @ [task]) =
    responses (calls \<sigma>) @ map answerTo (in_hand ?w @ tasks (queue \<sigma>) @ [task])"
    unfolding hand by simp
  have "list_all real_task (in_hand ?w @ tasks (queue \<sigma>) @ [task])"
    using inv push(2,3) unfolding hand by (simp add: ts_inv_def real_task_def)
  with inv \<tau> order show ?thesis
    unfolding ts_inv_def by (simp del: map_append list_all_append append_assoc in_hand.simps) (auto split: if_splits)
qed

inductive_cases ts_stepE: "ts_step os \<sigma> \<tau>"

interpretation tasks_in_order: step_invariant "ts_step os" "ts_inv h" for os h
  by unfold_locales (erule ts_stepE, erule (1) ts_inv_worker, erule (1) ts_inv_close)

lemma ts_reach_inv: "ts_reach os h \<sigma> \<Longrightarrow> ts_inv h \<sigma>"
proof (induction rule: ts_reach.induct)
  case (started s)
  then show ?case by (simp add: ts_inv_def ts_started_def newQueue_def)
next
  case (step \<sigma> \<tau>)
  show ?case by (rule tasks_in_order.I_step [OF step.IH step.hyps(2)])
next
  case (push \<sigma> \<tau>)
  show ?case by (rule ts_inv_push [OF push.IH push.hyps(2)])
next
  case (wake \<sigma>)
  then show ?case by (simp add: ts_inv_def)
qed

section \<open>The end of the worker\<close>

text \<open>Any step of the system: of the worker, of \<open>closeServer\<close>, of a client's thread, or a wake-up.\<close>

inductive ts_any :: "winsock \<Rightarrow> ts_sys \<Rightarrow> ts_sys \<Rightarrow> bool" for os where
  step: "ts_step os \<sigma> \<tau> \<Longrightarrow> ts_any os \<sigma> \<tau>"
| push: "ts_push \<sigma> \<tau> \<Longrightarrow> ts_any os \<sigma> \<tau>"
| wake: "worker_at \<sigma> = Asleep \<Longrightarrow> ts_any os \<sigma> (\<sigma>\<lparr>worker_at := At_lock\<rparr>)"

lemma ts_any_reach: "ts_reach os h \<sigma> \<Longrightarrow> ts_any os \<sigma> \<tau> \<Longrightarrow> ts_reach os h \<tau>"
  by (erule ts_any.cases) (auto intro: ts_reach.intros)

text \<open>
  The tasks pushed are those answered, the one in the worker's hand and the queue. When the worker
  waits the queue is empty. \<open>draining n\<close>: the worker does not end, nor take the empty task, before
  the first \<open>n\<close> tasks are out of the queue.
\<close>

definition served :: "history \<Rightarrow> ts_sys \<Rightarrow> bool" where
  "served h \<sigma> \<longleftrightarrow> (\<exists>answered. pushed \<sigma> = answered @ in_hand (worker_at \<sigma>) @ tasks (queue \<sigma>) \<and>
     responses (calls \<sigma>) = responses h @ map answerTo answered) \<and>
     (worker_at \<sigma> = Before_wait \<or> worker_at \<sigma> = Asleep \<longrightarrow> tasks (queue \<sigma>) = [])"

definition draining :: "nat \<Rightarrow> ts_sys \<Rightarrow> bool" where
  "draining n \<sigma> \<longleftrightarrow> n \<le> length (pushed \<sigma>) \<and>
     (worker_at \<sigma> = Finished \<or> worker_at \<sigma> = With_task noTask \<longrightarrow> length (tasks (queue \<sigma>)) + n \<le> length (pushed \<sigma>))"

lemma ts_inv_real: "ts_inv h \<sigma> \<Longrightarrow> tasks (queue \<sigma>) = t # ts \<Longrightarrow> real_task t \<and> t \<noteq> noTask"
  by (auto simp: ts_inv_def)

lemma worker_served:
  assumes inv: "ts_inv h \<sigma>" and move: "worker_move os \<sigma> = Some \<tau>" and old: "served h \<sigma>" "draining n \<sigma>"
  shows "served h \<tau> \<and> draining n \<tau> \<and> pushed \<tau> = pushed \<sigma>"
proof (cases "worker_at \<sigma>")
  case At_predicate
  show ?thesis
    by (rule pop_cases [of "queue \<sigma>"])
      (use old move At_predicate ts_inv_real [OF inv] in \<open>auto simp: served_def draining_def worker_move_def\<close>)
next
  case (With_task task)
  have real: "real_task task" if "task \<noteq> noTask" using inv With_task that by (simp add: ts_inv_def)
  show ?thesis
  proof (cases "task = noTask")
    case True
    then show ?thesis using old move With_task by (simp add: served_def draining_def worker_move_def) auto
  next
    case False
    then show ?thesis
      using old move With_task responses_processTask [OF real [OF False], of os "calls \<sigma>"]
      by (auto simp: served_def draining_def worker_move_def)
  qed
qed (use old move in \<open>auto simp: served_def draining_def worker_move_def split: if_splits\<close>)

lemma close_served:
  "close_move os \<sigma> = Some \<tau> \<Longrightarrow> served h \<sigma> \<Longrightarrow> draining n \<sigma> \<Longrightarrow> served h \<tau> \<and> draining n \<tau> \<and> pushed \<tau> = pushed \<sigma>"
  by (auto simp: served_def draining_def close_move_def split: close_pc.splits if_splits)

lemma push_served:
  assumes inv: "ts_inv h \<sigma>" and push: "ts_push \<sigma> \<tau>" and old: "served h \<sigma>" "draining n \<sigma>"
  shows "served h \<tau> \<and> draining n \<tau> \<and> (\<exists>t. pushed \<tau> = pushed \<sigma> @ [t])"
  using push
proof cases
  case (push task)
  then have \<tau>: "\<tau> = notify (\<sigma>\<lparr>queue := push task (queue \<sigma>), pushed := pushed \<sigma> @ [task]\<rparr>)" and free: "\<not> locked \<sigma>"
    by (auto simp: push_move_def split: if_splits)
  have "worker_at \<sigma> \<noteq> Before_wait" using inv free by (auto simp: ts_inv_def)
  then show ?thesis using old unfolding \<tau> by (auto simp: served_def draining_def)
qed

lemma any_served:
  assumes inv: "ts_inv h \<sigma>" and move: "ts_any os \<sigma> \<tau>" and old: "served h \<sigma>" "draining n \<sigma>"
  shows "ts_inv h \<tau> \<and> served h \<tau> \<and> draining n \<tau> \<and> (\<exists>more. pushed \<tau> = pushed \<sigma> @ more)"
  using move
proof cases
  case step
  from step show ?thesis
  proof cases
    case worker
    then show ?thesis using ts_inv_worker [OF inv worker] worker_served [OF inv worker old] by simp
  next
    case close
    then show ?thesis using ts_inv_close [OF inv close] close_served [OF close old] by simp
  qed
next
  case push
  then show ?thesis using ts_inv_push [OF inv push] push_served [OF inv push old] by blast
next
  case wake
  then show ?thesis using inv old by (auto simp: ts_inv_def served_def draining_def)
qed

lemma any_steps_served:
  "(ts_any os)\<^sup>*\<^sup>* \<sigma> \<tau> \<Longrightarrow> ts_inv h \<sigma> \<Longrightarrow> served h \<sigma> \<Longrightarrow> draining n \<sigma> \<Longrightarrow>
   ts_inv h \<tau> \<and> served h \<tau> \<and> draining n \<tau> \<and> (\<exists>more. pushed \<tau> = pushed \<sigma> @ more)"
proof (induction rule: rtranclp_induct)
  case (step \<tau> \<upsilon>)
  then show ?case using any_served [of h \<tau> os \<upsilon> n] by fastforce
qed simp

lemma ts_reach_served: "ts_reach os h \<sigma> \<Longrightarrow> served h \<sigma>"
proof (induction rule: ts_reach.induct)
  case (started s)
  then show ?case by (simp add: served_def ts_started_def newQueue_def)
next
  case (step \<sigma> \<tau>)
  have "draining 0 \<sigma>" using step.IH by (auto simp: served_def draining_def)
  then show ?case using any_served [OF ts_reach_inv [OF step.hyps(1)] ts_any.step [OF step.hyps(2)] step.IH] by blast
next
  case (push \<sigma> \<tau>)
  have "draining 0 \<sigma>" using push.IH by (auto simp: served_def draining_def)
  then show ?case using push_served [OF ts_reach_inv [OF push.hyps(1)] push.hyps(2) push.IH] by blast
next
  case (wake \<sigma>)
  then show ?case by (auto simp: served_def)
qed

section \<open>The end of the queue\<close>

text \<open>
  The worker alone, on a server that is not being closed: it answers what is queued and then waits,
  after at most four steps per task and five more.
\<close>

definition task_step :: "winsock \<Rightarrow> ts_sys \<Rightarrow> ts_sys \<Rightarrow> bool" where
  "task_step os \<sigma> \<tau> \<longleftrightarrow> worker_move os \<sigma> = Some \<tau>"

definition serving_inv :: "history \<Rightarrow> ClientTask list \<Rightarrow> ts_sys \<Rightarrow> bool" where
  "serving_inv h ps \<sigma> \<longleftrightarrow> ts_inv h \<sigma> \<and> served h \<sigma> \<and> isRunning (srv \<sigma>) \<and> pushed \<sigma> = ps"

fun turn_work :: "worker_pc \<Rightarrow> nat" where
  "turn_work (With_task task) = 5"
| "turn_work At_flag = 4"
| "turn_work At_lock = 3"
| "turn_work At_predicate = 2"
| "turn_work Before_wait = 1"
| "turn_work _ = 0"

definition serving_work :: "ts_sys \<Rightarrow> nat" where
  "serving_work \<sigma> = 4 * length (tasks (queue \<sigma>)) + turn_work (worker_at \<sigma>)"

lemma serving_pc:
  assumes "serving_inv h ps \<sigma>"
  shows "worker_at \<sigma> \<noteq> At_empty" "worker_at \<sigma> \<noteq> Finished" "worker_at \<sigma> \<noteq> With_task noTask" "\<not> stopFlag (queue \<sigma>)"
  using assms by (auto simp: serving_inv_def ts_inv_def)

lemma serving_step:
  assumes "serving_inv h ps \<sigma>" "task_step os \<sigma> \<tau>"
  shows "serving_inv h ps \<tau> \<and> serving_work \<tau> < serving_work \<sigma>"
proof -
  have move: "worker_move os \<sigma> = Some \<tau>" and inv: "ts_inv h \<sigma>" "served h \<sigma>" and run: "isRunning (srv \<sigma>)"
    using assms by (auto simp: task_step_def serving_inv_def)
  have "draining 0 \<sigma>" using inv(2) by (auto simp: served_def draining_def)
  then have "serving_inv h ps \<tau>"
    using ts_inv_worker [OF inv(1) move] worker_served [OF inv(1) move inv(2)] assms(1) move
    by (auto simp: serving_inv_def worker_move_def split: worker_pc.splits option.splits if_splits)
  moreover have "serving_work \<tau> < serving_work \<sigma>"
  proof (cases "worker_at \<sigma>")
    case At_predicate
    show ?thesis
      by (rule pop_cases [of "queue \<sigma>"])
        (use move At_predicate serving_pc [OF assms(1)] in \<open>auto simp: serving_work_def worker_move_def\<close>)
  qed (use move run serving_pc [OF assms(1)] in \<open>auto simp: serving_work_def worker_move_def split: if_splits\<close>)
  ultimately show ?thesis ..
qed

lemma serving_enabled:
  assumes "serving_inv h ps \<sigma>" "worker_at \<sigma> \<noteq> Asleep"
  shows "\<exists>\<tau>. task_step os \<sigma> \<tau>"
proof -
  have "\<not> locked \<sigma>" if "worker_at \<sigma> = At_lock" using assms(1) that by (auto simp: serving_inv_def ts_inv_def)
  then show ?thesis
    using assms(2) serving_pc [OF assms(1)] unfolding task_step_def
    by (cases "worker_at \<sigma>") (auto simp: worker_move_def split: option.split)
qed

interpretation queue_run: progress "task_step os" "serving_inv h ps" "\<lambda>\<sigma>. worker_at \<sigma> = Asleep" serving_work for os h ps
  by unfold_locales (blast dest: serving_step serving_enabled)+

lemma asleep_stays: "worker_at \<sigma> = Asleep \<Longrightarrow> \<not> task_step os \<sigma> \<tau>"
  by (simp add: task_step_def worker_move_def)

lemma reach_serving:
  assumes "ts_reach os h \<sigma>" and "isRunning (srv \<sigma>)"
  shows "serving_inv h (pushed \<sigma>) \<sigma>"
  using ts_reach_inv [OF assms(1)] ts_reach_served [OF assms(1)] assms(2) by (simp add: serving_inv_def)

lemma serving_work_bound: "serving_work \<sigma> \<le> 4 * length (tasks (queue \<sigma>)) + 5"
  by (cases "worker_at \<sigma>") (simp_all add: serving_work_def)

text \<open>Where the worker cannot go on, everything has been answered.\<close>

lemma serving_answered:
  assumes "serving_inv h ps \<sigma>" and "(task_step os)\<^sup>*\<^sup>* \<sigma> \<tau>" and "\<nexists>\<upsilon>. task_step os \<tau> \<upsilon>"
  shows "responses (calls \<tau>) = responses h @ map answerTo ps"
proof -
  have "serving_inv h ps \<tau>" by (rule queue_run.I_steps [OF assms(2,1)])
  moreover have "worker_at \<tau> = Asleep" by (rule queue_run.every_run_ends [OF assms])
  ultimately show ?thesis by (auto simp: serving_inv_def served_def)
qed

section \<open>The end of closeServer\<close>

text \<open>
  The stop flag is stored, and the worker was not between its test of the predicate and the
  wait at that moment: then it is never again before the wait, and asleep only until it is
  notified.
\<close>

definition closing_inv :: "ts_sys \<Rightarrow> bool" where
  "closing_inv \<sigma> \<longleftrightarrow> (\<exists>h. ts_inv h \<sigma>) \<and> closing \<sigma> \<noteq> Not_closing \<and> closing \<sigma> \<noteq> Flag_cleared \<and>
     worker_at \<sigma> \<noteq> Before_wait \<and> (worker_at \<sigma> = Asleep \<longrightarrow> closing \<sigma> = Stop_stored)"

fun worker_work :: "worker_pc \<Rightarrow> nat" where
  "worker_work (With_task task) = (if task = noTask then 1 else 6)"
| "worker_work At_flag = 5"
| "worker_work At_empty = 4"
| "worker_work At_lock = 3"
| "worker_work Asleep = 3"
| "worker_work At_predicate = 2"
| "worker_work _ = 0"

fun close_work :: "close_pc \<Rightarrow> nat" where
  "close_work Stop_stored = 3"
| "close_work Notified = 2"
| "close_work In_join = 1"
| "close_work _ = 0"

definition ts_work :: "ts_sys \<Rightarrow> nat" where
  "ts_work \<sigma> = 6 * length (tasks (queue \<sigma>)) + worker_work (worker_at \<sigma>) + close_work (closing \<sigma>)"

lemma closing_inv_worker:
  assumes inv: "closing_inv \<sigma>" and move: "worker_move os \<sigma> = Some \<tau>"
  shows "closing_inv \<tau> \<and> ts_work \<tau> < ts_work \<sigma>"
proof -
  obtain h where h: "ts_inv h \<sigma>" "ts_inv h \<tau>"
    using inv move ts_inv_worker unfolding closing_inv_def by blast
  have inv': "\<exists>h. ts_inv h \<tau>" using h(2) by blast
  have flags: "\<not> isRunning (srv \<sigma>)" "stopFlag (queue \<sigma>)"
    using h(1) inv by (auto simp: ts_inv_def closing_inv_def)
  show ?thesis
  proof (cases "worker_at \<sigma>")
    case At_predicate
    show ?thesis
      by (rule pop_cases [of "queue \<sigma>"])
        (use inv inv' flags move At_predicate ts_inv_real [OF h(1)] in
          \<open>auto simp: closing_inv_def worker_move_def ts_work_def\<close>)
  qed (use inv inv' flags move in \<open>auto simp: closing_inv_def worker_move_def ts_work_def split: if_splits\<close>)
qed

lemma closing_inv_close:
  assumes inv: "closing_inv \<sigma>" and move: "close_move os \<sigma> = Some \<tau>"
  shows "closing_inv \<tau> \<and> ts_work \<tau> < ts_work \<sigma>"
proof -
  obtain h where "ts_inv h \<tau>"
    using inv move ts_inv_close unfolding closing_inv_def by blast
  then have "\<exists>h. ts_inv h \<tau>" by blast
  with inv move show ?thesis
    by (auto simp: closing_inv_def close_move_def ts_work_def split: close_pc.splits if_splits)
qed

lemma closing_enabled:
  assumes inv: "closing_inv \<sigma>" and "closing \<sigma> \<noteq> Closed"
  shows "\<exists>\<tau>. ts_step os \<sigma> \<tau>"
proof (cases "close_move os \<sigma>")
  case None
  then have at: "closing \<sigma> = In_join" "worker_at \<sigma> \<noteq> Finished"
    using assms by (auto simp: close_move_def closing_inv_def split: close_pc.splits if_splits)
  have "locked \<sigma> \<longleftrightarrow> worker_at \<sigma> = At_predicate \<or> worker_at \<sigma> = Before_wait"
    using inv unfolding closing_inv_def ts_inv_def by blast
  with at inv have "\<exists>\<tau>. worker_move os \<sigma> = Some \<tau>"
    by (cases "worker_at \<sigma>") (auto simp: worker_move_def closing_inv_def split: option.split)
  then show ?thesis using ts_step.worker by blast
next
  case (Some \<tau>)
  then show ?thesis using ts_step.close by blast
qed

lemma closing_inv_step: "closing_inv \<sigma> \<Longrightarrow> ts_step os \<sigma> \<tau> \<Longrightarrow> closing_inv \<tau> \<and> ts_work \<tau> < ts_work \<sigma>"
  by (erule ts_stepE) (erule (1) closing_inv_worker, erule (1) closing_inv_close)

interpretation close_run: progress "ts_step os" closing_inv "\<lambda>\<sigma>. closing \<sigma> = Closed" ts_work for os
  by unfold_locales (blast dest: closing_inv_step closing_enabled)+

section \<open>Properties\<close>

definition okWinsock :: winsock where
  "okWinsock = \<lparr>answer = (\<lambda>h c. case c of Socket \<Rightarrow> 5 | _ \<Rightarrow> 0), format_message = (\<lambda>h c. None)\<rparr>"

definition servingServer :: thread_server where
  "servingServer = \<lparr>serverSocket = 5, ts_port = 8080, isRunning = True\<rparr>"

lemma servingServer_started: "ts_reach os h (ts_started servingServer h)"
  by (rule ts_reach.started) (simp_all add: servingServer_def INVALID_SOCKET_def)

text \<open>
  C7. Messages are answered in the order in which the clients' threads queued them, once each:
  at every moment the responses sent so far and those still owed (the task in the worker's
  hand, then the queue) are together the answers to all tasks pushed.
\<close>

theorem responses_in_order:
  assumes "ts_reach os h \<sigma>"
  shows "responses h @ map answerTo (pushed \<sigma>) =
    responses (calls \<sigma>) @ map answerTo (in_hand (worker_at \<sigma>) @ tasks (queue \<sigma>))"
  using ts_reach_inv [OF assms] by (simp only: ts_inv_def)

theorem responses_in_order_witness:
  "responses [] @ map answerTo (pushed (ts_started servingServer [])) =
   responses (calls (ts_started servingServer [])) @
     map answerTo (in_hand (worker_at (ts_started servingServer [])) @ tasks (queue (ts_started servingServer [])))"
  by (rule responses_in_order [OF servingServer_started [of okWinsock]])

text \<open>A run of \<open>closeServer\<close> and the worker on a server without tasks, up to a given point.\<close>

definition hanging :: "thread_server \<Rightarrow> history \<Rightarrow> ts_sys" where
  "hanging s h = \<lparr>srv = s\<lparr>isRunning := False, serverSocket := INVALID_SOCKET\<rparr>, queue = stopQueue newQueue, locked = False,
     worker_at = Asleep, closing = In_join, pushed = [],
     calls = h @ [Cout (''Stopping server...'' @ newline), Closesocket (serverSocket s)]\<rparr>"

definition worker_or_close :: "winsock \<Rightarrow> bool \<Rightarrow> ts_sys \<Rightarrow> ts_sys option" where
  "worker_or_close os w \<sigma> = (if w then worker_move os \<sigma> else close_move os \<sigma>)"

fun schedule :: "winsock \<Rightarrow> bool list \<Rightarrow> ts_sys \<Rightarrow> ts_sys option" where
  "schedule os [] \<sigma> = Some \<sigma>"
| "schedule os (w # ws) \<sigma> = (case worker_or_close os w \<sigma> of None \<Rightarrow> None | Some \<tau> \<Rightarrow> schedule os ws \<tau>)"

lemma schedule_steps: "schedule os ws \<sigma> = Some \<tau> \<Longrightarrow> (ts_step os)\<^sup>*\<^sup>* \<sigma> \<tau>"
proof (induction ws arbitrary: \<sigma>)
  case (Cons w ws)
  then obtain \<upsilon> where "worker_or_close os w \<sigma> = Some \<upsilon>" "schedule os ws \<upsilon> = Some \<tau>"
    by (auto split: option.splits)
  moreover from this have "ts_step os \<sigma> \<upsilon>"
    by (auto simp: worker_or_close_def split: if_splits intro: ts_step.intros)
  ultimately show ?case using Cons.IH by (meson converse_rtranclp_into_rtranclp)
qed simp

lemma reach_steps: "(ts_step os)\<^sup>*\<^sup>* \<sigma> \<tau> \<Longrightarrow> ts_reach os h \<sigma> \<Longrightarrow> ts_reach os h \<tau>"
  by (induction rule: rtranclp_induct) (auto intro: ts_reach.step)

text \<open>
  C15. Everything that has been queued while the server was running is answered, in order and once
  each, before the worker ends, on every schedule of the worker, \<open>closeServer\<close> and the clients'
  threads. What may be left unanswered in the queue are only last ones of the tasks that clients
  queued later, while the server was closing or after.
\<close>

theorem worker_drains_queue:
  assumes "ts_reach os h \<sigma>" and "isRunning (srv \<sigma>)" and "(ts_any os)\<^sup>*\<^sup>* \<sigma> \<tau>" and "worker_at \<tau> = Finished"
  shows "\<exists>answered later. pushed \<tau> = answered @ tasks (queue \<tau>) \<and> pushed \<tau> = pushed \<sigma> @ later \<and>
    length (pushed \<sigma>) \<le> length answered \<and> responses (calls \<tau>) = responses h @ map answerTo answered"
proof -
  have inv: "ts_inv h \<sigma>" "served h \<sigma>" by (rule ts_reach_inv [OF assms(1)], rule ts_reach_served [OF assms(1)])
  have "draining (length (pushed \<sigma>)) \<sigma>" using inv(1) assms(2) unfolding draining_def by (auto simp: ts_inv_def)
  then have \<tau>: "served h \<tau>" "draining (length (pushed \<sigma>)) \<tau>" and more: "\<exists>later. pushed \<tau> = pushed \<sigma> @ later"
    using any_steps_served [OF assms(3) inv] by blast+
  obtain answered where a: "pushed \<tau> = answered @ tasks (queue \<tau>)" "responses (calls \<tau>) = responses h @ map answerTo answered"
    using \<tau>(1) assms(4) by (auto simp: served_def)
  moreover have "length (pushed \<sigma>) \<le> length answered" using \<tau>(2) assms(4) a(1) by (simp add: draining_def)
  ultimately show ?thesis using more by blast
qed

lemma steps_any: "(ts_step os)\<^sup>*\<^sup>* \<sigma> \<tau> \<Longrightarrow> (ts_any os)\<^sup>*\<^sup>* \<sigma> \<tau>"
  by (induction rule: rtranclp_induct) (auto intro: ts_any.step rtranclp.rtrancl_into_rtrancl)

text \<open>A client's task is queued, the server closes, the worker ends, and one more task comes too late.\<close>

definition task_from_9 :: "string \<Rightarrow> ClientTask" where
  "task_from_9 m = \<lparr>clientSocket = 9, task_message = m\<rparr>"

lemma queued_hi:
  "\<exists>\<sigma>. ts_reach os [] \<sigma> \<and> isRunning (srv \<sigma>) \<and> push_move (task_from_9 ''hi'') (ts_started servingServer []) = Some \<sigma> \<and>
     pushed \<sigma> = [task_from_9 ''hi'']"
proof -
  obtain \<sigma> where \<sigma>: "push_move (task_from_9 ''hi'') (ts_started servingServer []) = Some \<sigma>" by (simp add: push_move_def ts_started_def)
  have "ts_push (ts_started servingServer []) \<sigma>" by (rule ts_push.push [OF \<sigma>]) (simp_all add: task_from_9_def INVALID_SOCKET_def)
  then have "ts_reach os [] \<sigma>" by (rule ts_reach.push [OF servingServer_started])
  with \<sigma> show ?thesis by (auto simp: push_move_def ts_started_def notify_def servingServer_def)
qed

theorem worker_drains_queue_witness:
  "\<exists>\<tau> :: ts_sys. worker_at \<tau> = Finished \<and> pushed \<tau> = [task_from_9 ''hi'', task_from_9 ''late''] \<and>
     responses (calls \<tau>) = [(9, ''PROCESSED: hi'')] \<and> tasks (queue \<tau>) = [task_from_9 ''late'']"
proof -
  obtain \<sigma> where reach: "ts_reach okWinsock [] \<sigma>" "isRunning (srv \<sigma>)" and \<sigma>: "pushed \<sigma> = [task_from_9 ''hi'']"
    "push_move (task_from_9 ''hi'') (ts_started servingServer []) = Some \<sigma>" using queued_hi by blast
  have "\<exists>\<tau>. schedule okWinsock [False, False, True, True, True, True, True, True, True] \<sigma> = Some \<tau> \<and> worker_at \<tau> = Finished \<and>
      \<not> locked \<tau> \<and> tasks (queue \<tau>) = [] \<and> pushed \<tau> = [task_from_9 ''hi'']"
    using \<sigma>(2) by (auto simp: worker_or_close_def worker_move_def close_move_def push_move_def ts_started_def servingServer_def
      newQueue_def notify_def push_def pop_def ready_def noTask_def task_from_9_def INVALID_SOCKET_def)
  then obtain \<tau> where \<tau>: "(ts_step okWinsock)\<^sup>*\<^sup>* \<sigma> \<tau>" "worker_at \<tau> = Finished" "\<not> locked \<tau>" "tasks (queue \<tau>) = []"
    "pushed \<tau> = [task_from_9 ''hi'']" using schedule_steps by blast
  obtain \<upsilon> where \<upsilon>: "push_move (task_from_9 ''late'') \<tau> = Some \<upsilon>" using \<tau>(3) by (simp add: push_move_def)
  have "ts_push \<tau> \<upsilon>" by (rule ts_push.push [OF \<upsilon>]) (simp_all add: task_from_9_def INVALID_SOCKET_def)
  then have run: "(ts_any okWinsock)\<^sup>*\<^sup>* \<sigma> \<upsilon>"
    using steps_any [OF \<tau>(1)] ts_any.push by (meson rtranclp.rtrancl_into_rtrancl)
  have over: "worker_at \<upsilon> = Finished" "pushed \<upsilon> = [task_from_9 ''hi'', task_from_9 ''late'']" "tasks (queue \<upsilon>) = [task_from_9 ''late'']"
    using \<upsilon> \<tau>(2-5) by (auto simp: push_move_def)
  from worker_drains_queue [OF reach run over(1)] over show ?thesis
    by (intro exI [of _ \<upsilon>]) (auto simp: answerTo_def task_from_9_def)
qed

text \<open>
  C10. \<open>closeServer\<close> returns, on every schedule of it and the worker, unless the worker stood
  between its test of the predicate and the wait when the stop flag was stored.
\<close>

theorem closeServer_returns:
  assumes "ts_reach os h \<sigma>" and "closing \<sigma> = Stop_stored" and "worker_at \<sigma> \<noteq> Before_wait"
  shows "(\<exists>\<tau>. (ts_step os)\<^sup>*\<^sup>* \<sigma> \<tau> \<and> closing \<tau> = Closed) \<and>
    (\<forall>\<tau>. (ts_step os)\<^sup>*\<^sup>* \<sigma> \<tau> \<longrightarrow> (\<exists>\<upsilon>. ts_step os \<tau> \<upsilon>) \<or> closing \<tau> = Closed) \<and>
    (\<forall>k \<tau>. (ts_step os ^^ k) \<sigma> \<tau> \<longrightarrow> k \<le> 6 * length (tasks (queue \<sigma>)) + 9)"
proof (intro conjI allI impI)
  have inv: "closing_inv \<sigma>" using ts_reach_inv [OF assms(1)] assms(2,3) by (auto simp: closing_inv_def)
  show "\<exists>\<tau>. (ts_step os)\<^sup>*\<^sup>* \<sigma> \<tau> \<and> closing \<tau> = Closed" by (rule close_run.reaches_goal [OF inv])
  show "(\<exists>\<upsilon>. ts_step os \<tau> \<upsilon>) \<or> closing \<tau> = Closed" if "(ts_step os)\<^sup>*\<^sup>* \<sigma> \<tau>" for \<tau>
    using close_run.every_run_ends [OF inv that] by blast
  have "worker_work w \<le> 6" for w by (cases w) auto
  then have "ts_work \<sigma> \<le> 6 * length (tasks (queue \<sigma>)) + 9"
    using assms(2) by (simp add: ts_work_def)
  then show "k \<le> 6 * length (tasks (queue \<sigma>)) + 9" if "(ts_step os ^^ k) \<sigma> \<tau>" for k \<tau>
    using close_run.steps_bounded [OF that inv] by linarith
qed

theorem closeServer_returns_witness:
  "\<exists>\<sigma> \<tau>. closing \<sigma> = Stop_stored \<and> (ts_step okWinsock)\<^sup>*\<^sup>* \<sigma> \<tau> \<and> closing \<tau> = Closed"
proof -
  let ?\<sigma> = "ts_started servingServer []"
  have "\<exists>\<tau>. schedule okWinsock [False, False] ?\<sigma> = Some \<tau> \<and> closing \<tau> = Stop_stored \<and> worker_at \<tau> \<noteq> Before_wait"
    by (simp add: worker_or_close_def close_move_def ts_started_def servingServer_def newQueue_def)
  then obtain \<tau> where \<tau>: "(ts_step okWinsock)\<^sup>*\<^sup>* ?\<sigma> \<tau>" "closing \<tau> = Stop_stored" "worker_at \<tau> \<noteq> Before_wait"
    using schedule_steps by blast
  from closeServer_returns [OF reach_steps [OF \<tau>(1) servingServer_started] \<tau>(2,3)] \<tau>(2) show ?thesis by blast
qed

text \<open>
  C13. \<open>closeServer\<close> can hang: \<open>stop\<close> stores its flag and notifies without the mutex, so both can
  fall between the worker's test of the predicate and its wait. Then the worker sleeps, nobody
  will notify it, and the join does not return unless the worker wakes up by chance.
\<close>

theorem closeServer_can_hang:
  fixes s :: thread_server
  assumes "isRunning s" and "serverSocket s \<noteq> INVALID_SOCKET"
  shows "\<exists>\<sigma>. ts_reach os h \<sigma> \<and> closing \<sigma> = In_join \<and> worker_at \<sigma> = Asleep \<and> (\<nexists>\<tau>. ts_step os \<sigma> \<tau>)"
proof -
  have "schedule os [True, True, True, False, False, False, True, False] (ts_started s h) = Some (hanging s h)"
    using assms
    by (simp add: worker_or_close_def worker_move_def close_move_def ts_started_def newQueue_def hanging_def
        notify_def stopQueue_def pop_def ready_def)
  then have "ts_reach os h (hanging s h)"
    using schedule_steps reach_steps ts_reach.started [OF assms] by blast
  moreover have "\<nexists>\<tau>. ts_step os (hanging s h) \<tau>"
    by (auto simp: hanging_def worker_move_def close_move_def elim!: ts_step.cases)
  ultimately show ?thesis by (intro exI [of _ "hanging s h"]) (simp add: hanging_def)
qed

theorem closeServer_can_hang_witness:
  "\<exists>\<sigma>. ts_reach okWinsock [] \<sigma> \<and> closing \<sigma> = In_join \<and> (\<nexists>\<tau>. ts_step okWinsock \<sigma> \<tau>)"
  using closeServer_can_hang [of servingServer okWinsock "[]"]
  by (auto simp: servingServer_def INVALID_SOCKET_def)

text \<open>The messages a client's thread hears: those before the flag is cleared or \<open>recv\<close> ends.\<close>

fun heard :: "(bool \<times> recv_result) list \<Rightarrow> string list" where
  "heard ((True, Received m) # turns) = m # heard turns"
| "heard _ = []"

fun ends :: "(bool \<times> recv_result) list \<Rightarrow> bool" where
  "ends [] = False"
| "ends ((flag, r) # turns) = (case r of Received m \<Rightarrow> \<not> flag \<or> ends turns | _ \<Rightarrow> True)"

lemma clientTurns_run:
  "\<exists>cs. clientTurns s turns q h =
      (ends turns, fold push (map (\<lambda>m. \<lparr>clientSocket = s, task_message = m\<rparr>) (heard turns)) q, h @ cs) \<and>
    responses cs = [] \<and> (\<forall>x. Closesocket x \<notin> set cs)"
proof (induction s turns q h rule: clientTurns.induct)
  case (2 s flag r turns q h)
  show ?case
  proof (cases "flag \<and> (\<exists>m. r = Received m)")
    case True
    then obtain m where flag and r: "r = Received m" by blast
    from 2 [OF _ r] \<open>flag\<close> obtain cs where
      "clientTurns s turns (push \<lparr>clientSocket = s, task_message = m\<rparr> q)
        (h @ [Cout (''[Producer] Received from client '' @ showSocket s @ '': '' @ m @
           '' (queue size: '' @ to_string (size_of q) @ '')'' @ newline)]) =
       (ends turns, fold push (map (\<lambda>m. \<lparr>clientSocket = s, task_message = m\<rparr>) (heard turns))
          (push \<lparr>clientSocket = s, task_message = m\<rparr> q),
        (h @ [Cout (''[Producer] Received from client '' @ showSocket s @ '': '' @ m @
           '' (queue size: '' @ to_string (size_of q) @ '')'' @ newline)]) @ cs)"
      "responses cs = []" "\<forall>x. Closesocket x \<notin> set cs" by blast
    then show ?thesis using r \<open>flag\<close> by simp
  next
    case False
    then show ?thesis by (cases flag; cases r) auto
  qed
qed simp

lemma acceptTurns_run:
  "fst (run_state (acceptTurns os turns started) h) =
    started @ filter (\<lambda>s. s \<noteq> INVALID_SOCKET) (map (fst \<circ> snd) (takeWhile fst turns))"
  by (induction os turns started arbitrary: h rule: acceptTurns.induct) (auto simp: errorLine_def)

text \<open>
  C35. The producers. The thread of a client queues exactly the messages it hears, in their
  order, up to the first turn in which the flag is cleared or \<open>recv\<close> has nothing; if there is
  such a turn it closes its socket once. The accept loop starts one thread for every valid
  socket accepted while the flag is set.
\<close>

theorem producers_correct:
  "(\<exists>cs. handleClient s turns q h =
      (ends turns, fold push (map (\<lambda>m. \<lparr>clientSocket = s, task_message = m\<rparr>) (heard turns)) q, h @ cs) \<and>
    responses cs = [] \<and> (\<forall>x. count_list cs (Closesocket x) = (if ends turns \<and> x = s then 1 else 0))) \<and>
   fst (run_state (runServer os server accepts) h) =
     (if isRunning server then filter (\<lambda>s. s \<noteq> INVALID_SOCKET) (map (fst \<circ> snd) (takeWhile fst accepts)) else [])"
proof
  let ?h = "h @ [Cout (''Client connected. Socket: '' @ showSocket s @ newline)]"
  obtain cs where "clientTurns s turns q ?h =
      (ends turns, fold push (map (\<lambda>m. \<lparr>clientSocket = s, task_message = m\<rparr>) (heard turns)) q, ?h @ cs)"
      "responses cs = []" "\<forall>x. Closesocket x \<notin> set cs"
    using clientTurns_run [of s turns q ?h] by blast
  then show "\<exists>cs. handleClient s turns q h =
      (ends turns, fold push (map (\<lambda>m. \<lparr>clientSocket = s, task_message = m\<rparr>) (heard turns)) q, h @ cs) \<and>
    responses cs = [] \<and> (\<forall>x. count_list cs (Closesocket x) = (if ends turns \<and> x = s then 1 else 0))"
    by (simp add: handleClient_def)
  show "fst (run_state (runServer os server accepts) h) =
     (if isRunning server then filter (\<lambda>s. s \<noteq> INVALID_SOCKET) (map (fst \<circ> snd) (takeWhile fst accepts)) else [])"
    by (simp add: runServer_def acceptTurns_run)
qed

text \<open>
  A start that fails leaves nothing behind: Winsock is ended exactly when it was begun, and
  the socket is closed exactly once if there was one. A start that succeeds keeps both.
\<close>

theorem startServer_balanced:
  "\<exists>ok s' cs. run_state (startServer os s) h = ((ok, s'), h @ WSAStartup # cs) \<and>
    isRunning s' = (ok \<or> isRunning s) \<and>
    count_list cs WSACleanup = (if answer os h WSAStartup = 0 \<and> \<not> ok then 1 else 0) \<and>
    (\<forall>x. count_list cs (Closesocket x) =
       (if answer os h WSAStartup = 0 \<and> x = answer os (h @ [WSAStartup]) Socket \<and> x \<noteq> INVALID_SOCKET \<and> \<not> ok
        then 1 else 0))"
proof -
  have line: "run_state (errorLine os t) h =
    ((), h @ [Cerr t, WSAGetLastError, Cerr (int_to_string (sint (ucast (answer os (h @ [Cerr t]) WSAGetLastError) :: u32)) @ newline)])"
    for t h by (simp add: errorLine_def)
  show ?thesis
    by (auto simp: startServer_def openSocket_def bindServer_def listenServer_def guardCall_def line Let_def)
qed

end
