(* ===== verification/Thread_Client_Thms.thy ===== *)
theory Thread_Client_Thms
  imports Thread_Client Thread_Server_Thms
begin

text \<open>
  A console session against the answers of the threaded server, which lines overflow the
  client's buffer, and the server that \<open>main\<close> starts.
\<close>

section \<open>Lines\<close>

definition LFC :: char where "LFC = CHR 0x0A"
definition NUL :: char where "NUL = CHR 0x00"

definition plain :: "string \<Rightarrow> bool" where
  "plain line \<longleftrightarrow> LFC \<notin> set line \<and> NUL \<notin> set line \<and> length line < BUFFER \<and> line \<noteq> ''exit''"

lemma cinGetline_line:
  assumes "LFC \<notin> set line" "length line < BUFFER"
  shows "cinGetline BUFFER \<lparr>pending = line @ LFC # rest, good = True\<rparr> = (line, \<lparr>pending = rest, good = True\<rparr>)"
proof -
  have "takeWhile (\<lambda>x. x \<noteq> LFC) (line @ LFC # rest) = line"
    using assms(1) by (rule takeWhile_until)
  then show ?thesis using assms(2) by (simp add: cinGetline_def LFC_def [symmetric])
qed

lemma c_str_store [simp]: "NUL \<notin> set s \<Longrightarrow> c_str (store (s @ CHR 0x00 # t) buffer) = s"
proof -
  assume "NUL \<notin> set s"
  then have "takeWhile (\<lambda>c. c \<noteq> NUL) (s @ NUL # t @ drop (length s + Suc (length t)) buffer) = s"
    by (rule takeWhile_until)
  then show ?thesis by (simp add: c_str_def store_def NUL_def)
qed

section \<open>One exchange\<close>

definition processed :: "string \<Rightarrow> string" where
  "processed line = ''PROCESSED: '' @ line"

lemma processed_answerTo: "answerTo \<lparr>clientSocket = s, task_message = line\<rparr> = (s, processed line)"
  by (simp add: answerTo_def processed_def)

lemma NUL_processed: "NUL \<notin> set (processed line) \<longleftrightarrow> NUL \<notin> set line"
  by (simp add: processed_def NUL_def)

lemma length_processed [simp]: "length (processed line) = length line + 11"
  by (simp add: processed_def)

definition exchange :: "SOCKET \<Rightarrow> string \<Rightarrow> history" where
  "exchange s line = [Cout ''> '', Send s line, Cout (''Server echo: '' @ processed line @ newline)]"

definition sends :: "winsock \<Rightarrow> SOCKET \<Rightarrow> bool" where
  "sends os s \<longleftrightarrow> (\<forall>h t. answer os h (Send s t) \<noteq> SOCKET_ERROR)"

definition after_answer :: "string \<Rightarrow> string \<Rightarrow> string" where
  "after_answer line buffer = store (processed line @ [CHR 0x00]) (store (line @ [CHR 0x00]) buffer)"

lemma clientLoop_exchange:
  assumes plain: "plain line" and sends: "sends os s"
  shows "clientLoop os s (Received (processed line) # later) \<lparr>pending = line @ LFC # rest, good = True\<rparr> buffer h =
    (if length line + 11 < BUFFER
     then clientLoop os s later \<lparr>pending = rest, good = True\<rparr> (after_answer line buffer) (h @ exchange s line)
     else (Past_buffer, h @ [Cout ''> '', Send s line]))"
proof -
  have line: "LFC \<notin> set line" "NUL \<notin> set line" "length line < BUFFER" "line \<noteq> ''exit''"
    using plain by (auto simp: plain_def)
  show ?thesis
    using line sends
    by (simp add: clientLoop.simps [of os s "Received (processed line) # later"] cinGetline_line Let_def sends_def
        NUL_processed after_answer_def exchange_def)
qed

lemma clientLoop_exit:
  "clientLoop os s answers \<lparr>pending = ''exit'' @ LFC # rest, good = True\<rparr> buffer h =
    (Exit 0, h @ [Cout ''> '', Cout (''Closing connection...'' @ newline), Closesocket s, WSACleanup])"
proof -
  have "cinGetline BUFFER \<lparr>pending = ''exit'' @ LFC # rest, good = True\<rparr> = (''exit'', \<lparr>pending = rest, good = True\<rparr>)"
    by (rule cinGetline_line) (simp_all add: LFC_def BUFFER_def)
  moreover have "NUL \<notin> set ''exit''" by (simp add: NUL_def)
  ultimately show ?thesis
    using c_str_store [of "''exit''" "[]" buffer] by (simp add: clientLoop.simps [of os s answers] Let_def del: append_Cons append.simps)
qed

text \<open>The lines as they are typed, and the answers of the server, one for each.\<close>

definition typed :: "string list \<Rightarrow> string \<Rightarrow> string" where
  "typed lines rest = concat (map (\<lambda>l. l @ [LFC]) lines) @ rest"

lemma typed_simps [simp]: "typed [] rest = rest" "typed (l # ls) rest = l @ LFC # typed ls rest"
  by (simp_all add: typed_def)

lemma clientLoop_lines:
  assumes "list_all (\<lambda>l. plain l \<and> length l + 11 < BUFFER) lines" and "sends os s"
  shows "\<exists>buffer'. clientLoop os s (map (Received \<circ> processed) lines @ later) \<lparr>pending = typed lines rest, good = True\<rparr> buffer h =
    clientLoop os s later \<lparr>pending = rest, good = True\<rparr> buffer' (h @ concat (map (exchange s) lines))"
  using assms(1)
proof (induction lines arbitrary: buffer h)
  case Nil
  show ?case by (rule exI [of _ buffer]) simp
next
  case (Cons l ls)
  then show ?case
    using Cons.IH [of "after_answer l buffer" "h @ exchange s l"] clientLoop_exchange [of l os s] assms(2) by simp
qed

section \<open>Past the end of the input\<close>

lemma clientLoop_bad_stream:
  assumes "\<not> good c" and "sends os s"
  shows "clientLoop os s [] c buffer h = (In_recv, h @ [Cout ''> '', Send s []])"
  using assms c_str_store [of "[]" "[]" buffer]
  by (simp add: clientLoop.simps [of os s "[]"] cinGetline_def sends_def Let_def)

section \<open>The started server\<close>

lemma startServer_socket:
  assumes "run_state (startServer os s0) h = ((True, s), h1)"
  shows "isRunning s \<and> serverSocket s \<noteq> INVALID_SOCKET"
  using assms
  by (auto simp: startServer_def openSocket_def Let_def split: prod.splits if_splits)

lemma threadMain_reach: "threadMain os h = Inr (s, h1) \<Longrightarrow> ts_reach os h1 (ts_started s h1)"
  using startServer_socket [of os "newThreadServer 8080" h]
  by (auto simp: threadMain_def split: prod.splits bool.splits intro: ts_reach.started)

text \<open>The destructor finds the flag cleared: it does nothing, and Winsock is ended once.\<close>

lemma threadMainEnd_once:
  assumes "ts_reach os h \<sigma>" and "threadMainEnd os turns \<sigma> = Some (code, \<tau>)"
  shows "code = 0 \<and> \<tau> = \<sigma>\<lparr>calls := calls \<sigma> @ [Cout (''Server stopped.'' @ newline)]\<rparr>"
proof -
  have "\<not> isRunning (srv \<sigma>)"
    using ts_reach_inv [OF assms(1)] assms(2) by (auto simp: ts_inv_def threadMainEnd_def split: if_splits)
  then show ?thesis using assms(2) by (auto simp: threadMainEnd_def destroy_move_def close_move_def Let_def split: if_splits)
qed

section \<open>Properties\<close>

text \<open>
  A session of the client and the server: whatever lines below 1013 characters are typed, if
  the server's answers to them arrive in order, the client sends and shows one exchange per
  line, ends with code 0 at the line exit, and closes its socket and Winsock.
\<close>

lemma client_session:
  assumes lines: "list_all (\<lambda>l. plain l \<and> length l < 1013) lines"
    and up: "answer os h WSAStartup = 0" "s = answer os (h @ [WSAStartup]) Socket" "s \<noteq> INVALID_SOCKET"
    and connected: "answer os (h @ [WSAStartup, Socket]) (Connect s ''127.0.0.1'' 8080) \<noteq> SOCKET_ERROR"
    and sends: "sends os s"
  shows "clientMain os (map (\<lambda>l. Received (snd (answerTo \<lparr>clientSocket = peer, task_message = l\<rparr>))) lines)
      \<lparr>pending = typed lines (''exit'' @ LFC # rest), good = True\<rparr> buffer h =
    (Exit 0, h @ [WSAStartup, Socket, Connect s ''127.0.0.1'' 8080,
        Cout (''Connected to server. Type messages to echo (type '' @ [CHR 0x27] @ ''exit'' @ [CHR 0x27] @ '' to quit).'' @ newline)] @
      concat (map (exchange s) lines) @
      [Cout ''> '', Cout (''Closing connection...'' @ newline), Closesocket s, WSACleanup])"
proof -
  let ?up = "\<lambda>s. h @ [WSAStartup, Socket, Connect s ''127.0.0.1'' 8080,
    Cout (''Connected to server. Type messages to echo (type '' @ [CHR 0x27] @ ''exit'' @ [CHR 0x27] @ '' to quit).'' @ newline)]"
  have "(\<lambda>l. plain l \<and> length l + 11 < BUFFER) = (\<lambda>l. plain l \<and> length l < 1013)"
    by (auto simp: BUFFER_def)
  then have "list_all (\<lambda>l. plain l \<and> length l + 11 < BUFFER) lines" using lines by simp
  note exchanges = clientLoop_lines [OF this sends, of "[]"]
  obtain buffer' where "clientLoop os s (map (Received \<circ> processed) lines)
      \<lparr>pending = typed lines (''exit'' @ LFC # rest), good = True\<rparr> buffer (?up s) =
    clientLoop os s [] \<lparr>pending = ''exit'' @ LFC # rest, good = True\<rparr> buffer' (?up s @ concat (map (exchange s) lines))"
    using exchanges [of "''exit'' @ LFC # rest" buffer "?up s"] by (auto simp only: append_Nil2)
  then have "clientLoop os s (map (Received \<circ> processed) lines)
      \<lparr>pending = typed lines (''exit'' @ LFC # rest), good = True\<rparr> buffer (?up s) =
    (Exit 0, (?up s @ concat (map (exchange s) lines)) @
      [Cout ''> '', Cout (''Closing connection...'' @ newline), Closesocket s, WSACleanup])"
    by (simp only: clientLoop_exit)
  moreover have "clientMain os answers c buffer h = clientLoop os s answers c buffer (?up s)" for answers c
    using up connected by (simp add: clientMain_def Let_def)
  ultimately show ?thesis by (simp only: processed_answerTo snd_conv comp_def append_assoc)
qed

definition clientWinsock :: winsock where
  "clientWinsock = \<lparr>answer = (\<lambda>h c. case c of Socket \<Rightarrow> 7 | _ \<Rightarrow> 0), format_message = (\<lambda>h c. None)\<rparr>"

lemma clientWinsock_sends: "sends clientWinsock s"
  by (simp add: sends_def clientWinsock_def SOCKET_ERROR_def)

text \<open>Of the answers to all tasks, those to one client.\<close>

lemma answers_to:
  "sent_to peer (map answerTo ts) =
     map (\<lambda>l. snd (answerTo \<lparr>clientSocket = peer, task_message = l\<rparr>)) (map task_message (filter (\<lambda>t. clientSocket t = peer) ts))"
  by (induction ts) (auto simp: sent_to_def answerTo_def)



text \<open>
  C28. A line of 1013 to 1023 characters overflows the buffer of the client: the server's answer,
  eleven characters longer, fills all 1024 characters, and the zero is written past the end.
\<close>

theorem client_overflow:
  assumes "plain line" and "1013 \<le> length line" and "sends os s"
  shows "clientLoop os s (Received (snd (answerTo \<lparr>clientSocket = peer, task_message = line\<rparr>)) # later)
      \<lparr>pending = line @ LFC # rest, good = True\<rparr> buffer h = (Past_buffer, h @ [Cout ''> '', Send s line])"
  using clientLoop_exchange [OF assms(1,3), of later rest buffer h] assms(2)
  by (simp add: processed_answerTo BUFFER_def)

theorem client_overflow_witness:
  "\<forall>rest buffer. fst (clientLoop clientWinsock 7 [Received (''PROCESSED: '' @ replicate 1013 CHR ''a'')]
     \<lparr>pending = replicate 1013 CHR ''a'' @ LFC # rest, good = True\<rparr> buffer []) = Past_buffer"
proof -
  let ?line = "replicate 1013 CHR ''a''"
  have len: "length ?line = 1013" by (rule length_replicate)
  have "?line \<noteq> ''exit''"
  proof
    assume eq: "?line = ''exit''"
    have "length ''exit'' = 1013" using len by (simp only: eq)
    then show False by simp
  qed
  then have plain: "plain ?line"
    unfolding plain_def len by (auto simp: LFC_def NUL_def BUFFER_def)
  have long: "1013 \<le> length ?line" by (simp only: len le_refl)
  have "snd (answerTo \<lparr>clientSocket = 7, task_message = ?line\<rparr>) = ''PROCESSED: '' @ ?line"
    by (simp only: answerTo_def snd_conv ClientTask.select_convs)
  then show ?thesis
    using client_overflow [OF plain long clientWinsock_sends, where peer = 7 and s = 7 and h = "[]" and later = "[]"]
    by (simp only: fst_conv simp_thms)
qed

text \<open>
  After the end of the input the client does not end: it sends empty messages, which the
  server never sees, and waits for an answer for ever.
\<close>

theorem client_waits_after_input:
  assumes "sends os s"
  shows "\<exists>h'. clientLoop os s [] \<lparr>pending = [], good = True\<rparr> buffer h = (In_recv, h @ h') \<and> responses h' = [(s, [])]"
  using assms c_str_store [of "[]" "[]" buffer]
  by (simp add: clientLoop.simps [of os s "[]"] cinGetline_def sends_def Let_def BUFFER_def)

theorem client_waits_after_input_witness:
  "\<forall>buffer. fst (clientLoop clientWinsock 7 [] \<lparr>pending = [], good = True\<rparr> buffer []) = In_recv"
  using client_waits_after_input [OF clientWinsock_sends, of 7 _ "[]"] by (metis fst_conv)

end
