(* ===== verification/Handshake.thy ===== *)
theory Handshake
  imports Frame_Spec
begin

text \<open>
  The protocol handler, \<open>src/cool_server/handler.h\<close> and \<open>handler.cpp\<close>: the opening handshake on
  the text of the request, and \<open>handleData\<close> on one buffer. SHA-1 and the base64 filter of
  OpenSSL are arguments. The connection is an interface of virtual functions, so what
  \<open>handleData\<close> does to it is the list of the calls it makes.
\<close>

section \<open>Strings\<close>

definition CR :: char where "CR = CHR 0x0D"
definition LF :: char where "LF = CHR 0x0A"

text \<open>\<open>std::getline\<close>: the characters up to the next line feed, which is dropped; None at the end.\<close>

definition getline :: "string \<Rightarrow> (string \<times> string) option" where
  "getline s = (if s = [] then None else Some (takeWhile (\<lambda>c. c \<noteq> LF) s, drop 1 (dropWhile (\<lambda>c. c \<noteq> LF) s)))"

text \<open>\<open>std::string::find\<close>; None is \<open>npos\<close>.\<close>

fun find_str :: "string \<Rightarrow> string \<Rightarrow> nat option" where
  "find_str pat [] = (if pat = [] then Some 0 else None)"
| "find_str pat (c # cs) =
     (if take (length pat) (c # cs) = pat then Some 0 else map_option Suc (find_str pat cs))"

definition contains :: "string \<Rightarrow> string \<Rightarrow> bool" where
  "contains line pat \<longleftrightarrow> find_str pat line \<noteq> None"

section \<open>The opening handshake\<close>

definition MAGIC_GUID :: string where
  "MAGIC_GUID = ''258EAFA5-E914-47DA-95CA-C5AB0DC85B11''"

definition CRLF :: string where "CRLF = [CR, LF]"

definition HANDSHAKE_HEADER :: string where
  "HANDSHAKE_HEADER = ''HTTP/1.1 101 Switching Protocols'' @ CRLF @ ''Upgrade: websocket'' @ CRLF @
     ''Connection: Upgrade'' @ CRLF @ ''Sec-WebSocket-Accept: ''"

text \<open>The value after the first colon, without leading blanks, up to the carriage return.\<close>

definition keyValue :: "string \<Rightarrow> string" where
  "keyValue line =
     (let start = (case find_str '':'' line of None \<Rightarrow> 0 | Some i \<Rightarrow> i + 1);
          rest = dropWhile (\<lambda>c. c = CHR '' '' \<or> c = CHR 0x09) (drop start line) in
      takeWhile (\<lambda>c. c \<noteq> CR) rest)"

record parse_state =
  key :: string
  upgrade_websocket :: bool
  connection_upgrade :: bool

definition headerLine :: "string \<Rightarrow> parse_state \<Rightarrow> parse_state" where
  "headerLine line st =
     (if contains line ''Sec-WebSocket-Key:'' then st\<lparr>key := keyValue line\<rparr>
      else if contains line ''Upgrade: websocket'' then st\<lparr>upgrade_websocket := True\<rparr>
      else if contains line ''Connection: Upgrade'' then st\<lparr>connection_upgrade := True\<rparr>
      else st)"

lemma getline_shrinks:
  assumes "getline s = Some (line, rest)"
  shows "length rest < length s"
proof -
  have "0 < length s" "length rest = length (dropWhile (\<lambda>c. c \<noteq> LF) s) - 1"
    using assms by (auto simp: getline_def split: if_splits)
  then show ?thesis using length_dropWhile_le [of "\<lambda>c. c \<noteq> LF" s] by linarith
qed

function headerLoop :: "string \<Rightarrow> parse_state \<Rightarrow> parse_state" where
  "headerLoop s st =
     (case getline s of
        None \<Rightarrow> st
      | Some (line, rest) \<Rightarrow> headerLoop rest (headerLine line st))"
  by pat_completeness auto
termination
  by (relation "measure (\<lambda>(s, _). length s)") (auto dest: getline_shrinks)

declare headerLoop.simps [simp del]

text \<open>The result, and the key as the reference parameter holds it afterwards.\<close>

definition parseHandshake :: "string \<Rightarrow> bool \<times> string" where
  "parseHandshake request =
     (let (line, rest) = (case getline request of None \<Rightarrow> ([], []) | Some r \<Rightarrow> r) in
      if \<not> contains line ''GET'' then (False, [])
      else
        let st = headerLoop rest \<lparr>key = [], upgrade_websocket = False, connection_upgrade = False\<rparr> in
        (key st \<noteq> [] \<and> upgrade_websocket st \<and> connection_upgrade st, key st))"

text \<open>
  \<open>bio\<close> is what the base64 filter has put in the memory sink when it was given a string and
  flushed. \<open>BIO_write\<close> takes the length as an \<open>int\<close>, and writes nothing when it is not positive.
\<close>

definition base64_encode :: "(string \<Rightarrow> string) \<Rightarrow> string \<Rightarrow> string" where
  "base64_encode bio input =
     (let n = sint (word_of_nat (length input) :: u32) in
      bio (if 0 < n then take (nat n) input else []))"

text \<open>
  \<open>handleHandshake\<close> gives the pointer to the connection (None: null, on every path) and the
  response, if one is written.
\<close>

definition handleHandshake :: "(byte list \<Rightarrow> byte list) \<Rightarrow> (string \<Rightarrow> string) \<Rightarrow> string \<Rightarrow> unit option \<times> string option" where
  "handleHandshake sha1 bio request =
     (case parseHandshake request of
        (False, _) \<Rightarrow> (None, None)
      | (True, client_key) \<Rightarrow>
          let combined = client_key @ MAGIC_GUID;
              hash = sha1 (bytes_of combined);
              accept = base64_encode bio (string_of hash) in
          (None, Some (HANDSHAKE_HEADER @ accept @ CRLF @ CRLF)))"

section \<open>Data\<close>

datatype conn_call =
    Call_close u16 string
  | Call_sendPong string
  | Call_setMessageCallback
  | Call_setErrorCallback

definition newHandler :: "u64 \<Rightarrow> u64" where
  "newHandler max_frame_size = min max_frame_size MAX_FRAME_SIZE"

text \<open>The body of the try block: an exception, or the calls made.\<close>

definition handleDataBody :: "u64 \<Rightarrow> FrameHeader \<Rightarrow> byte list \<Rightarrow> exn + conn_call list" where
  "handleDataBody max_frame_size header0 data =
     (case parseHeader data header0 of
        Inl e \<Rightarrow> Inl e
      | Inr (False, _) \<Rightarrow> Inl (Runtime_error ''Invalid frame header'')
      | Inr (True, header) \<Rightarrow>
          if max_frame_size < payload_length header then Inr [Call_close 1009 ''Frame too large'']
          else if length data < headerSize header + unat (payload_length header) then
            Inl (Runtime_error ''Incomplete frame'')
          else
            (case decodePayload header (take (unat (payload_length header)) (drop (headerSize header) data)) of
               Inl e \<Rightarrow> Inl e
             | Inr message \<Rightarrow>
                 (case opcode header of
                    Text \<Rightarrow> Inr [Call_setMessageCallback]
                  | Binary \<Rightarrow> Inr []
                  | Close \<Rightarrow> Inr [Call_close 1000 []]
                  | Ping \<Rightarrow> Inr [Call_sendPong message]
                  | Pong \<Rightarrow> Inr []
                  | _ \<Rightarrow> Inl (Runtime_error ''Unsupported opcode''))))"

definition handleData :: "u64 \<Rightarrow> FrameHeader \<Rightarrow> bool \<Rightarrow> byte list \<Rightarrow> conn_call list" where
  "handleData max_frame_size header0 connection data =
     (if \<not> connection then []
      else case handleDataBody max_frame_size header0 data of
             Inl e \<Rightarrow> [Call_setErrorCallback, Call_close 1002 ''Protocol error'']
           | Inr cs \<Rightarrow> cs)"

section \<open>Requests made of lines\<close>

definition requestText :: "string list \<Rightarrow> string" where
  "requestText ls = concat (map (\<lambda>l. l @ CRLF) ls)"

lemma CR_not_LF [simp]: "CR \<noteq> LF" "LF \<noteq> CR"
  by (simp_all add: CR_def LF_def)

lemma getline_line:
  assumes "LF \<notin> set l"
  shows "getline (l @ CRLF @ rest) = Some (l @ [CR], rest)"
proof -
  have "takeWhile (\<lambda>c. c \<noteq> LF) ((l @ [CR]) @ LF # rest) = l @ [CR]"
    by (rule takeWhile_until) (use assms in simp)
  moreover from assms have "dropWhile (\<lambda>c. c \<noteq> LF) (l @ CR # LF # rest) = LF # rest" by (induction l) auto
  ultimately show ?thesis by (simp add: getline_def CRLF_def)
qed

lemma headerLoop_lines:
  assumes "\<forall>l \<in> set ls. LF \<notin> set l"
  shows "headerLoop (requestText ls) st = fold (\<lambda>l. headerLine (l @ [CR])) ls st"
  using assms
proof (induction ls arbitrary: st)
  case Nil
  then show ?case by (simp add: requestText_def headerLoop.simps [of "[]"] getline_def)
next
  case (Cons l ls)
  then have "getline (requestText (l # ls)) = Some (l @ [CR], requestText ls)"
    using getline_line [of l "requestText ls"] by (simp add: requestText_def)
  then show ?case using Cons by (simp add: headerLoop.simps [of "requestText (l # ls)"])
qed

text \<open>A pattern without a carriage return is found in a line exactly when it is found before its end.\<close>

lemma find_str_snoc: "c \<notin> set pat \<Longrightarrow> pat \<noteq> [] \<Longrightarrow> find_str pat (l @ [c]) = find_str pat l"
proof (induction l)
  case Nil
  then show ?case by (cases pat) auto
next
  case (Cons a l)
  have "take (length pat) (a # l @ [c]) = pat \<longleftrightarrow> take (length pat) (a # l) = pat"
  proof (cases "length pat \<le> length (a # l)")
    case True
    then have "take (length pat) ((a # l) @ [c]) = take (length pat) (a # l)" by (simp only: take_append) simp
    then show ?thesis by simp
  next
    case False
    then have "take (length pat) (a # l @ [c]) = a # l @ [c]" "take (length pat) (a # l) = a # l" by auto
    then show ?thesis using False Cons.prems(1) by (metis in_set_conv_decomp append_Cons le_refl)
  qed
  with Cons show ?case by simp
qed

lemma contains_snoc [simp]: "c \<notin> set pat \<Longrightarrow> pat \<noteq> [] \<Longrightarrow> contains (l @ [c]) pat = contains l pat"
  by (simp add: contains_def find_str_snoc)

text \<open>What the headers of a request say, line by line.\<close>

definition isKey :: "string \<Rightarrow> bool" where "isKey l = contains l ''Sec-WebSocket-Key:''"
definition isUpgrade :: "string \<Rightarrow> bool" where
  "isUpgrade l \<longleftrightarrow> \<not> isKey l \<and> contains l ''Upgrade: websocket''"
definition isConnection :: "string \<Rightarrow> bool" where
  "isConnection l \<longleftrightarrow> \<not> isKey l \<and> \<not> isUpgrade l \<and> contains l ''Connection: Upgrade''"

lemma patterns_no_CR:
  "CR \<notin> set ''Sec-WebSocket-Key:''" "CR \<notin> set ''Upgrade: websocket''" "CR \<notin> set ''Connection: Upgrade''" "CR \<notin> set ''GET''" "CR \<notin> set '':''"
  by (simp_all add: CR_def)

lemma headerLine_CR:
  "headerLine (l @ [CR]) st =
     (if isKey l then st\<lparr>key := keyValue (l @ [CR])\<rparr>
      else if isUpgrade l then st\<lparr>upgrade_websocket := True\<rparr>
      else if isConnection l then st\<lparr>connection_upgrade := True\<rparr>
      else st)"
  using patterns_no_CR by (simp add: headerLine_def isKey_def isUpgrade_def isConnection_def)

lemma fold_headerLine:
  "fold (\<lambda>l. headerLine (l @ [CR])) ls st =
    \<lparr>key = (if filter isKey ls = [] then key st else keyValue (last (filter isKey ls) @ [CR])),
     upgrade_websocket = (upgrade_websocket st \<or> list_ex isUpgrade ls),
     connection_upgrade = (connection_upgrade st \<or> list_ex isConnection ls)\<rparr>"
proof (induction ls arbitrary: st)
  case (Cons l ls)
  then show ?case
    by (auto simp: headerLine_CR isUpgrade_def isConnection_def)
qed simp

section \<open>Frames in one buffer\<close>

definition protocolError :: "conn_call list" where
  "protocolError = [Call_setErrorCallback, Call_close 1002 ''Protocol error'']"

fun frameCalls :: "Opcode \<Rightarrow> string \<Rightarrow> conn_call list" where
  "frameCalls Text m = [Call_setMessageCallback]"
| "frameCalls Binary m = []"
| "frameCalls Close m = [Call_close 1000 []]"
| "frameCalls Ping m = [Call_sendPong m]"
| "frameCalls Pong m = []"
| "frameCalls _ m = protocolError"

lemma handleData_whole:
  assumes frame: "createFrame k op payload m = Inr frame" and len: "length payload \<le> unat MAX_FRAME_SIZE"
  shows "handleData (newHandler MAX_FRAME_SIZE) h0 True (frame @ later) = frameCalls op payload"
proof -
  let ?h = "frameHeader k op (length payload) m h0"
  have n: "length payload < 2 ^ 64" using len by (simp add: MAX_FRAME_SIZE_nat)
  then have u: "unat (payload_length ?h) = length payload" by (simp add: unat_of_nat)
  have small: "\<not> newHandler MAX_FRAME_SIZE < payload_length ?h"
    using len u by (simp add: newHandler_def word_less_nat_alt)
  let ?p = "if m then masked_bytes k (bytes_of payload) else bytes_of payload"
  have "decodePayload ?h ?p = Inr payload"
    using decode_masked [of payload ?h] u by (cases m) simp_all
  then show ?thesis
    using parse_created [OF frame len, of later h0] u small
    by (cases op) (simp_all add: handleData_def handleDataBody_def createFrame_split [OF frame] headerSize_frameHeader [OF n] protocolError_def)
qed

lemma handleData_part:
  assumes frame: "createFrame k op payload m = Inr frame" and len: "length payload \<le> unat MAX_FRAME_SIZE"
    and part: "n < length frame"
  shows "handleData (newHandler MAX_FRAME_SIZE) h0 True (take n frame) = protocolError"
proof -
  let ?h = "frameHeader k op (length payload) m h0" and ?data = "take n frame"
  have n: "length payload < 2 ^ 64" using len by (simp add: MAX_FRAME_SIZE_nat)
  then have u: "unat (payload_length ?h) = length payload" by (simp add: unat_of_nat)
  have small: "\<not> newHandler MAX_FRAME_SIZE < payload_length ?h"
    using len u by (simp add: newHandler_def word_less_nat_alt)
  have whole: "parseHeader frame h0 = Inr (True, ?h)" using parse_created [OF frame len, of "[]" h0] by simp
  have size: "length frame = headerSize ?h + unat (payload_length ?h)"
    using u headerSize_frameHeader [OF n] by (simp add: createFrame_split [OF frame])
  have split: "take n frame @ drop n frame = frame" by simp
  show ?thesis
  proof (cases "parseHeader ?data h0")
    case (Inl e)
    then show ?thesis by (simp add: handleData_def handleDataBody_def protocolError_def)
  next
    case (Inr r)
    obtain b h where r: "r = (b, h)" by force
    show ?thesis
    proof (cases b)
      case True
      then have "h = ?h"
        using parseHeader_append(1) [of ?data h0 h "drop n frame"] whole Inr r by (simp add: split)
      then show ?thesis using Inr r True part size small
        by (simp add: handleData_def handleDataBody_def protocolError_def)
    next
      case False
      then show ?thesis using Inr r by (simp add: handleData_def handleDataBody_def protocolError_def)
    qed
  qed
qed

text \<open>The whole string is encoded as long as its length is an \<open>int\<close>.\<close>

lemma base64_encode_short:
  assumes "length input < 2 ^ 31"
  shows "base64_encode bio input = bio input"
proof -
  have "sint (word_of_nat (length input) :: u32) = int (length input)"
    using assms by (simp add: sint_uint uint_nat unsigned_of_nat signed_take_bit_int_eq_self take_bit_nat_eq_self)
  then show ?thesis by (cases input) (simp_all add: base64_encode_def)
qed

section \<open>Properties\<close>

text \<open>
  C26. The handshake, on any request made of lines: it is accepted exactly when the first line
  contains GET, there is a key that is not empty and an upgrade and a connection line, in any
  order and with anything in between. The response holds the digest of the last key and the
  GUID. A connection is never returned, not even for an accepted request.
\<close>

theorem handshake_correct:
  assumes "\<forall>l \<in> set (first # headers). LF \<notin> set l"
  shows "handleHandshake sha1 bio (requestText (first # headers)) =
    (None,
     let k = (if filter isKey headers = [] then [] else keyValue (last (filter isKey headers) @ [CR])) in
     if contains first ''GET'' \<and> k \<noteq> [] \<and> list_ex isUpgrade headers \<and> list_ex isConnection headers
     then Some (HANDSHAKE_HEADER @ base64_encode bio (string_of (sha1 (bytes_of (k @ MAGIC_GUID)))) @ CRLF @ CRLF)
     else None)"
proof -
  have "getline (requestText (first # headers)) = Some (first @ [CR], requestText headers)"
    using getline_line [of first "requestText headers"] assms by (simp add: requestText_def)
  moreover have "headerLoop (requestText headers) st = fold (\<lambda>l. headerLine (l @ [CR])) headers st" for st
    using assms by (intro headerLoop_lines) simp
  ultimately show ?thesis
    using patterns_no_CR(4)
    by (simp add: handleHandshake_def parseHandshake_def fold_headerLine Let_def split: prod.split bool.split)
qed

theorem handshake_correct_witness:
  "handleHandshake id id (requestText [''GET /chat HTTP/1.1'', ''Host: localhost'', ''Upgrade: websocket'',
     ''Connection: Upgrade'', ''Sec-WebSocket-Key:  dGhl'']) =
   (None, Some (HANDSHAKE_HEADER @ ''dGhl'' @ MAGIC_GUID @ CRLF @ CRLF))"
  by (subst handshake_correct; code_simp)

text \<open>
  C27. \<open>handleData\<close> on a frame that \<open>createFrame\<close> built makes exactly the calls of its opcode,
  whatever bytes follow; on a proper part of the frame, as TCP may deliver it, it reports a
  protocol error and closes, since it keeps no buffer.
\<close>

theorem handleData_frames:
  assumes "createFrame k op payload m = Inr frame" and "length payload \<le> unat MAX_FRAME_SIZE"
  shows "handleData (newHandler MAX_FRAME_SIZE) h0 True (frame @ later) = frameCalls op payload \<and>
    (\<forall>n. handleData (newHandler MAX_FRAME_SIZE) h0 True (take n frame) =
       (if n < length frame then protocolError else frameCalls op payload))"
proof (intro conjI allI)
  show "handleData (newHandler MAX_FRAME_SIZE) h0 True (frame @ later) = frameCalls op payload"
    by (rule handleData_whole [OF assms])
  show "handleData (newHandler MAX_FRAME_SIZE) h0 True (take n frame) =
      (if n < length frame then protocolError else frameCalls op payload)" for n
    using handleData_part [OF assms, of n h0] handleData_whole [OF assms, of h0 "[]"] by simp
qed

theorem handleData_frames_witness:
  "\<forall>h0. handleData (newHandler MAX_FRAME_SIZE) h0 True [0x89, 1, 65] = [Call_sendPong ''A''] \<and>
     handleData (newHandler MAX_FRAME_SIZE) h0 True [0x89, 1] = protocolError"
proof -
  have "createFrame 0 Ping ''A'' False = Inr [0x89, 1, 65]" by code_simp
  from handleData_frames [OF this, of _ "[]"] show ?thesis
    by (force simp: MAX_FRAME_SIZE_nat dest: spec [of _ 2])
qed

end
