(* ===== verification/Auth.thy ===== *)
theory Auth
  imports Messenger_Prelude
begin

text \<open>
  Authentication, \<open>src/cool_server/auth\<close>: the JSON web tokens of \<open>jwt.cpp\<close> and the service of
  \<open>auth_service.cpp\<close>. OpenSSL's HMAC, SHA-256 and random bytes are arguments, and so are
  \<open>base64Encode\<close> and \<open>base64Decode\<close>, which \<open>jwt.h\<close> declares and nobody defines. The clock is
  the time in seconds.
\<close>

section \<open>Strings\<close>

text \<open>\<open>find\<close> and \<open>rfind\<close> of a character; None is \<open>npos\<close>.\<close>

fun find_char :: "char \<Rightarrow> string \<Rightarrow> nat option" where
  "find_char c [] = None"
| "find_char c (d # ds) = (if d = c then Some 0 else map_option Suc (find_char c ds))"

definition rfind_char :: "char \<Rightarrow> string \<Rightarrow> nat option" where
  "rfind_char c s = map_option (\<lambda>i. length s - 1 - i) (find_char c (rev s))"

definition substr :: "string \<Rightarrow> nat \<Rightarrow> nat \<Rightarrow> string" where
  "substr s start count = take count (drop start s)"

definition DOT :: char where "DOT = CHR 0x2E"
definition QUOTE :: string where "QUOTE = [CHR 0x22]"

section \<open>Tokens\<close>

record crypto =
  hmac :: "string \<Rightarrow> string \<Rightarrow> string"
  sha256 :: "string \<Rightarrow> string"
  base64Encode :: "string \<Rightarrow> string"
  base64Decode :: "string \<Rightarrow> exn + string"

record JWTService =
  secret :: string
  token_ttl :: int

definition newJWTService :: "string \<Rightarrow> int \<Rightarrow> exn + JWTService" where
  "newJWTService s ttl =
     (if s = [] then Inl (Invalid_argument ''JWT secret cannot be empty'')
      else Inr \<lparr>secret = s, token_ttl = ttl\<rparr>)"

definition signToken :: "crypto \<Rightarrow> JWTService \<Rightarrow> string \<Rightarrow> string \<Rightarrow> string" where
  "signToken cr jwt header payload = base64Encode cr (hmac cr (secret jwt) (header @ [DOT] @ payload))"

definition verifyToken :: "crypto \<Rightarrow> JWTService \<Rightarrow> string \<Rightarrow> string \<Rightarrow> string \<Rightarrow> bool" where
  "verifyToken cr jwt signature header payload \<longleftrightarrow> signature = signToken cr jwt header payload"

definition jsonHeader :: string where
  "jsonHeader = ''{'' @ QUOTE @ ''alg'' @ QUOTE @ '':'' @ QUOTE @ ''HS256'' @ QUOTE @ '','' @
     QUOTE @ ''typ'' @ QUOTE @ '':'' @ QUOTE @ ''JWT'' @ QUOTE @ ''}''"

text \<open>One claim of the payload map; the map is given as its entries in the order of the keys.\<close>

definition jsonClaim :: "string \<times> string \<Rightarrow> string" where
  "jsonClaim kv = '','' @ QUOTE @ fst kv @ QUOTE @ '':'' @ QUOTE @ snd kv @ QUOTE"

definition jsonPayload :: "JWTService \<Rightarrow> int \<Rightarrow> string \<Rightarrow> (string \<times> string) list \<Rightarrow> string" where
  "jsonPayload jwt now user_id claims =
     ''{'' @ QUOTE @ ''sub'' @ QUOTE @ '':'' @ QUOTE @ user_id @ QUOTE @ '','' @
     QUOTE @ ''exp'' @ QUOTE @ '':'' @ int_to_string (now + token_ttl jwt) @
     concat (map jsonClaim claims) @ ''}''"

definition generateToken :: "crypto \<Rightarrow> JWTService \<Rightarrow> int \<Rightarrow> string \<Rightarrow> (string \<times> string) list \<Rightarrow> string" where
  "generateToken cr jwt now user_id claims =
     (let header_encoded = base64Encode cr jsonHeader;
          payload_encoded = base64Encode cr (jsonPayload jwt now user_id claims);
          signature = signToken cr jwt header_encoded payload_encoded in
      header_encoded @ [DOT] @ payload_encoded @ [DOT] @ signature)"

definition validateToken :: "crypto \<Rightarrow> JWTService \<Rightarrow> string \<Rightarrow> string option" where
  "validateToken cr jwt token =
     (case (find_char DOT token, rfind_char DOT token) of
        (Some dot1, Some dot2) \<Rightarrow>
          if dot1 = dot2 then None
          else
            let header_encoded = substr token 0 dot1;
                payload_encoded = substr token (dot1 + 1) (dot2 - dot1 - 1);
                signature = drop (dot2 + 1) token in
            if \<not> verifyToken cr jwt signature header_encoded payload_encoded then None
            else (case base64Decode cr payload_encoded of Inl e \<Rightarrow> None | Inr payload \<Rightarrow> Some payload)
      | _ \<Rightarrow> None)"

section \<open>The service\<close>

record AuthResult =
  success :: bool
  token :: string
  error_message :: string

record AuthService =
  jwt_service :: JWTService
  pepper :: string

definition newAuthService :: "JWTService \<Rightarrow> string \<Rightarrow> AuthService" where
  "newAuthService jwt p = \<lparr>jwt_service = jwt, pepper = p\<rparr>"

text \<open>\<open>random\<close> is what \<open>RAND_bytes\<close> writes, None when it fails.\<close>

definition generateSalt :: "byte list option \<Rightarrow> exn + string" where
  "generateSalt random =
     (case random of
        None \<Rightarrow> Inl (Runtime_error ''Failed to generate salt'')
      | Some salt \<Rightarrow> Inr (string_of salt))"

definition hashPassword :: "crypto \<Rightarrow> AuthService \<Rightarrow> string \<Rightarrow> string \<Rightarrow> string" where
  "hashPassword cr auth password salt = sha256 cr (password @ salt @ pepper auth)"

definition registerUser :: "crypto \<Rightarrow> AuthService \<Rightarrow> int \<Rightarrow> byte list option \<Rightarrow> string \<Rightarrow> string \<Rightarrow> exn + AuthResult" where
  "registerUser cr auth now random login password =
     (case generateSalt random of
        Inl e \<Rightarrow> Inl e
      | Inr salt \<Rightarrow>
          let hashed_password = hashPassword cr auth password salt;
              t = generateToken cr (jwt_service auth) now login [] in
          Inr \<lparr>success = True, token = t, error_message = []\<rparr>)"

definition loginUser :: "crypto \<Rightarrow> AuthService \<Rightarrow> int \<Rightarrow> string \<Rightarrow> string \<Rightarrow> AuthResult" where
  "loginUser cr auth now login password =
     (let t = generateToken cr (jwt_service auth) now login [] in
      \<lparr>success = True, token = t, error_message = []\<rparr>)"

definition serviceValidateToken :: "crypto \<Rightarrow> AuthService \<Rightarrow> string \<Rightarrow> bool" where
  "serviceValidateToken cr auth t \<longleftrightarrow> validateToken cr (jwt_service auth) t \<noteq> None"

definition getUserIdFromToken :: "crypto \<Rightarrow> AuthService \<Rightarrow> string \<Rightarrow> string option" where
  "getUserIdFromToken cr auth t = validateToken cr (jwt_service auth) t"

section \<open>Dots\<close>

lemma find_char_None: "find_char c s = None \<longleftrightarrow> c \<notin> set s"
  by (induction s) auto

lemma find_char_append: "c \<notin> set xs \<Longrightarrow> find_char c (xs @ c # ys) = Some (length xs)"
  by (induction xs) auto

lemma rfind_char_append: "c \<notin> set ys \<Longrightarrow> rfind_char c (xs @ c # ys) = Some (length xs)"
  by (simp add: rfind_char_def find_char_append)

lemma split_first: "c \<in> set s \<Longrightarrow> \<exists>xs ys. s = xs @ c # ys \<and> c \<notin> set xs"
  by (rule split_list_first)

lemma split_last: "c \<in> set s \<Longrightarrow> \<exists>xs ys. s = xs @ c # ys \<and> c \<notin> set ys"
  by (rule split_list_last)

text \<open>A token is split at its first and its last dot.\<close>

lemma validateToken_split:
  assumes "DOT \<notin> set h" "DOT \<notin> set s"
  shows "validateToken cr jwt (h @ [DOT] @ p @ [DOT] @ s) =
    (if s = signToken cr jwt h p then (case base64Decode cr p of Inl e \<Rightarrow> None | Inr x \<Rightarrow> Some x) else None)"
proof -
  let ?t = "h @ [DOT] @ p @ [DOT] @ s"
  have 1: "find_char DOT ?t = Some (length h)" using find_char_append [OF assms(1), of "p @ DOT # s"] by simp
  have 2: "rfind_char DOT ?t = Some (length h + 1 + length p)"
    using rfind_char_append [OF assms(2), of "h @ DOT # p"] by simp
  show ?thesis by (simp add: validateToken_def 1 2 substr_def verifyToken_def del: append_Cons)
qed

lemma validateToken_no_split:
  "validateToken cr jwt t \<noteq> None \<Longrightarrow> \<exists>h p s. t = h @ [DOT] @ p @ [DOT] @ s \<and> DOT \<notin> set h \<and> DOT \<notin> set s"
proof -
  assume valid: "validateToken cr jwt t \<noteq> None"
  then have "find_char DOT t \<noteq> None" by (auto simp: validateToken_def split: option.splits)
  then have "DOT \<in> set t" by (simp add: find_char_None)
  then obtain xs s where t: "t = xs @ DOT # s" "DOT \<notin> set s" using split_last by metis
  show ?thesis
  proof (cases "DOT \<in> set xs")
    case True
    then obtain h p where "xs = h @ DOT # p" "DOT \<notin> set h" using split_first by metis
    then show ?thesis using t by (intro exI [of _ h] exI [of _ p] exI [of _ s]) simp
  next
    case False
    then have "find_char DOT t = Some (length xs)" "rfind_char DOT t = Some (length xs)"
      using t by (simp_all add: find_char_append rfind_char_append)
    then show ?thesis using valid by (simp add: validateToken_def)
  qed
qed

lemma validateToken_iff:
  "validateToken cr jwt t = Some x \<longleftrightarrow>
    (\<exists>h p s. t = h @ [DOT] @ p @ [DOT] @ s \<and> DOT \<notin> set h \<and> DOT \<notin> set s \<and>
       s = signToken cr jwt h p \<and> base64Decode cr p = Inr x)" (is "?l \<longleftrightarrow> ?r")
proof
  assume valid: ?l
  then obtain h p s where t: "t = h @ [DOT] @ p @ [DOT] @ s" "DOT \<notin> set h" "DOT \<notin> set s"
    using validateToken_no_split [of cr jwt t] by auto
  moreover have "s = signToken cr jwt h p \<and> base64Decode cr p = Inr x"
    using valid unfolding t(1) validateToken_split [OF t(2,3)] by (auto split: if_splits sum.splits)
  ultimately show ?r by blast
next
  assume ?r
  then obtain h p s where t: "t = h @ [DOT] @ p @ [DOT] @ s" "DOT \<notin> set h" "DOT \<notin> set s"
    and "s = signToken cr jwt h p" "base64Decode cr p = Inr x" by blast
  then show ?l unfolding t(1) validateToken_split [OF t(2,3)] by simp
qed

text \<open>
  A salt has sixteen bytes, so the string that is hashed determines the password and the salt.
\<close>

lemma hashed_string_injective:
  assumes "generateSalt (Some r1) = Inr salt1" "length r1 = 16"
    and "generateSalt (Some r2) = Inr salt2" "length r2 = 16"
  shows "password1 @ salt1 @ pepper auth = password2 @ salt2 @ pepper auth \<longleftrightarrow> password1 = password2 \<and> r1 = r2"
proof -
  have salts: "salt1 = string_of r1" "salt2 = string_of r2" using assms by (simp_all add: generateSalt_def)
  have "string_of r1 = string_of r2 \<longleftrightarrow> r1 = r2" by (metis bytes_of_string_of)
  then show ?thesis using assms(2,4) by (simp add: salts)
qed

section \<open>The base64 functions\<close>

text \<open>
  What the tokens rely on: the encoding has no dot, and decoding undoes it. The second
  definition is a concrete pair of functions with both laws (two letters per character), with
  an identity for the digests.
\<close>

definition base64_ok :: "crypto \<Rightarrow> bool" where
  "base64_ok cr \<longleftrightarrow> (\<forall>s. DOT \<notin> set (base64Encode cr s) \<and> base64Decode cr (base64Encode cr s) = Inr s)"

definition letter :: "nat \<Rightarrow> char" where "letter n = char_of (65 + n)"

fun letters :: "string \<Rightarrow> string" where
  "letters [] = []"
| "letters (c # cs) = letter (of_char c div 16) # letter (of_char c mod 16) # letters cs"

fun unletters :: "string \<Rightarrow> string" where
  "unletters (a # b # cs) = char_of ((of_char a - 65) * 16 + (of_char b - 65 :: nat)) # unletters cs"
| "unletters _ = []"

definition letterCrypto :: crypto where
  "letterCrypto = \<lparr>hmac = (\<lambda>k d. k @ d), sha256 = id, base64Encode = letters, base64Decode = (\<lambda>s. Inr (unletters s))\<rparr>"

lemma of_char_letter: "n < 16 \<Longrightarrow> of_char (letter n) = 65 + n"
  by (simp add: letter_def)

lemma letter_not_dot: "n < 16 \<Longrightarrow> letter n \<noteq> DOT"
proof
  assume "n < 16" "letter n = DOT"
  then have "65 + n = (of_char DOT :: nat)" using of_char_letter by metis
  then show False by (simp add: DOT_def)
qed

lemma of_char_less: "(of_char c :: nat) < 256"
  by (metis of_char_mod_256 mod_less_divisor zero_less_numeral)

lemma letterCrypto_ok: "base64_ok letterCrypto"
proof -
  have bound: "of_char c div 16 < (16::nat)" for c :: char
    using of_char_less [of c] by (simp add: div_less_iff_less_mult)
  have "DOT \<notin> set (letters s)" for s
    by (induction s) (use bound letter_not_dot in \<open>auto simp: eq_commute [of DOT]\<close>)
  moreover have "unletters (letters s) = s" for s
    by (induction s) (use bound in \<open>simp_all add: of_char_letter\<close>)
  ultimately show ?thesis by (simp add: base64_ok_def letterCrypto_def)
qed

section \<open>Properties\<close>

text \<open>
  C33. A token that \<open>generateToken\<close> made is accepted by \<open>validateToken\<close> under the same secret,
  and gives back the payload; the time of the check plays no part, so a token never expires.
\<close>

theorem token_roundtrip:
  assumes "base64_ok cr"
  shows "validateToken cr jwt (generateToken cr jwt now user_id claims) = Some (jsonPayload jwt now user_id claims)"
  using assms
  by (simp add: base64_ok_def generateToken_def Let_def signToken_def
      validateToken_split [of _ _ cr jwt, simplified])

theorem token_roundtrip_witness:
  "\<forall>jwt. validateToken letterCrypto jwt (generateToken letterCrypto jwt 0 ''alice'' []) =
     Some (jsonPayload jwt 0 ''alice'' [])"
  by (intro allI token_roundtrip letterCrypto_ok)

text \<open>
  C16. The service accepts exactly the strings of three parts around the first and the last dot
  whose third part is the signature of the first two under the secret and whose middle part
  decodes; the answer is the decoded middle part.
\<close>

theorem token_authentic:
  "validateToken cr jwt t = Some x \<longleftrightarrow>
    (\<exists>h p s. t = h @ [DOT] @ p @ [DOT] @ s \<and> DOT \<notin> set h \<and> DOT \<notin> set s \<and>
       s = base64Encode cr (hmac cr (secret jwt) (h @ [DOT] @ p)) \<and> base64Decode cr p = Inr x)"
  unfolding validateToken_iff signToken_def ..

text \<open>
  Claims are not escaped: a claim whose value contains quotes makes the same token as two
  claims, so whoever chooses one value can add claims.
\<close>

theorem claims_not_escaped:
  "generateToken cr jwt now user_id [(a, b @ QUOTE @ '','' @ QUOTE @ c @ QUOTE @ '':'' @ QUOTE @ d)] =
   generateToken cr jwt now user_id [(a, b), (c, d)]"
  by (simp add: generateToken_def jsonPayload_def jsonClaim_def)

text \<open>
  C36. Logging in with any password gives a token that the service accepts, and what the service
  calls the user's id is the whole JSON payload of the token. Registering gives what logging in
  gives, unless there are no random bytes for the salt.
\<close>

theorem login_any_password:
  assumes "base64_ok cr"
  shows "success (loginUser cr auth now login password) \<and>
    loginUser cr auth now login password = loginUser cr auth now login password' \<and>
    serviceValidateToken cr auth (token (loginUser cr auth now login password)) \<and>
    getUserIdFromToken cr auth (token (loginUser cr auth now login password)) =
      Some (''{'' @ QUOTE @ ''sub'' @ QUOTE @ '':'' @ QUOTE @ login @ QUOTE @ '','' @ QUOTE @ ''exp'' @ QUOTE @ '':'' @
        int_to_string (now + token_ttl (jwt_service auth)) @ ''}'') \<and>
    registerUser cr auth now random login password =
      (if random = None then Inl (Runtime_error ''Failed to generate salt'')
       else Inr (loginUser cr auth now login password'))"
proof -
  let ?t = "generateToken cr (jwt_service auth) now login []"
  have "validateToken cr (jwt_service auth) ?t = Some (jsonPayload (jwt_service auth) now login [])"
    using validateToken_split [of _ _ cr "jwt_service auth"] assms
    by (simp add: base64_ok_def generateToken_def Let_def signToken_def)
  then show ?thesis
    by (simp add: loginUser_def serviceValidateToken_def getUserIdFromToken_def Let_def jsonPayload_def
        registerUser_def generateSalt_def split: option.split)
qed

theorem login_any_password_witness:
  "\<forall>auth now. serviceValidateToken letterCrypto auth (token (loginUser letterCrypto auth now ''alice'' ''guess''))"
  using login_any_password [OF letterCrypto_ok] by blast

end
