(* ===== verification/Database.thy ===== *)
theory Database
  imports Messenger_Prelude "HOL-Library.State_Monad" "HOL-Library.Monad_Syntax" "HOL-Library.Multiset"
begin

text \<open>
  The database layer, \<open>src/cool_server/db/database.h\<close> and \<open>database.cpp\<close>: thin classes around
  a connection and a prepared statement of SQLite. SQLite is a parameter whose answers may
  depend on all calls made before; the operations are state-monad programs over that history.
  A C \<open>int\<close> is a 32-bit word, a \<open>double\<close> its 64 bits, a handle a 64-bit word with 0 for null.
\<close>

section \<open>SQLite\<close>

text \<open>
  A value as it is bound: \<open>Blob\<close> gives the bytes at the pointer and the size argument, which the
  code computes with a cast. \<open>Opened\<close> and \<open>Prepared\<close> carry the code and the handle returned, \<open>Closed_db\<close>,
  \<open>Bind\<close> and \<open>Reset\<close> the code, which the classes ignore.
\<close>

datatype sql_value = Null | Integer u32 | Double u64 | Text_value string | Blob "byte list" u32

datatype sql_call =
    Opened string u32 u64
  | Closed_db u64 u32
  | Errmsg u64
  | Exec u64 string
  | Free_errmsg
  | Last_insert_rowid u64
  | Prepared u64 string u32 u64
  | Finalize u64
  | Bind u64 u32 sql_value u32
  | Step u64
  | Column u64 u32
  | Reset u64 u32
  | Clear_bindings u64

type_synonym sql_history = "sql_call list"

record sqlite =
  open_result :: "sql_history \<Rightarrow> string \<Rightarrow> u32 \<times> u64"
  close_result :: "sql_history \<Rightarrow> u64 \<Rightarrow> u32"
  prepare_result :: "sql_history \<Rightarrow> u64 \<Rightarrow> string \<Rightarrow> u32 \<times> u64"
  exec_result :: "sql_history \<Rightarrow> u64 \<Rightarrow> string \<Rightarrow> u32 \<times> string option"
  errmsg :: "sql_history \<Rightarrow> u64 \<Rightarrow> string"
  last_insert_rowid :: "sql_history \<Rightarrow> u64 \<Rightarrow> u64"
  bind_result :: "sql_history \<Rightarrow> u64 \<Rightarrow> u32 \<Rightarrow> sql_value \<Rightarrow> u32"
  reset_result :: "sql_history \<Rightarrow> u64 \<Rightarrow> u32"
  step_result :: "sql_history \<Rightarrow> u64 \<Rightarrow> u32"
  column_int :: "sql_history \<Rightarrow> u64 \<Rightarrow> u32 \<Rightarrow> u32"
  column_double :: "sql_history \<Rightarrow> u64 \<Rightarrow> u32 \<Rightarrow> u64"
  column_text :: "sql_history \<Rightarrow> u64 \<Rightarrow> u32 \<Rightarrow> string option"
  column_blob :: "sql_history \<Rightarrow> u64 \<Rightarrow> u32 \<Rightarrow> byte list option"
  column_bytes :: "sql_history \<Rightarrow> u64 \<Rightarrow> u32 \<Rightarrow> u32"
  column_type :: "sql_history \<Rightarrow> u64 \<Rightarrow> u32 \<Rightarrow> u32"

definition SQLITE_OK :: u32 where "SQLITE_OK = 0"
definition SQLITE_BUSY :: u32 where "SQLITE_BUSY = 5"
definition SQLITE_TOOBIG :: u32 where "SQLITE_TOOBIG = 18"
definition SQLITE_MISUSE :: u32 where "SQLITE_MISUSE = 21"
definition SQLITE_ROW :: u32 where "SQLITE_ROW = 100"
definition SQLITE_DONE :: u32 where "SQLITE_DONE = 101"
definition SQLITE_TEXT :: u32 where "SQLITE_TEXT = 3"
definition SQLITE_NULL :: u32 where "SQLITE_NULL = 5"

text \<open>One call: the answer for the history so far, and the call recorded.\<close>

definition ask :: "(sql_history \<Rightarrow> 'a) \<Rightarrow> sql_call \<Rightarrow> (sql_history, 'a) state" where
  "ask f c = State (\<lambda>h. (f h, h @ [c]))"

lemma run_ask [simp]: "run_state (ask f c) h = (f h, h @ [c])"
  by (simp add: ask_def)

text \<open>A call whose code is recorded, and not looked at by the program.\<close>

definition ignoring :: "(sql_history \<Rightarrow> u32) \<Rightarrow> (u32 \<Rightarrow> sql_call) \<Rightarrow> (sql_history, unit) state" where
  "ignoring f c = State (\<lambda>h. ((), h @ [c (f h)]))"

lemma run_ignoring [simp]: "run_state (ignoring f c) h = ((), h @ [c (f h)])"
  by (simp add: ignoring_def)

section \<open>Database\<close>

record Database =
  db :: u64

definition throwErrmsg :: "sqlite \<Rightarrow> u64 \<Rightarrow> (sql_history, exn + 'a) state" where
  "throwErrmsg sq d = do {
     m \<leftarrow> ask (\<lambda>h. errmsg sq h d) (Errmsg d);
     State_Monad.return (Inl (Database_exception (c_str m)))
   }"

definition newDatabase :: "sqlite \<Rightarrow> string \<Rightarrow> (sql_history, exn + Database) state" where
  "newDatabase sq path = do {
     (rc, d) \<leftarrow> State (\<lambda>h. let r = open_result sq h (c_str path) in (r, h @ [Opened (c_str path) (fst r) (snd r)]));
     if rc \<noteq> SQLITE_OK then throwErrmsg sq d
     else State_Monad.return (Inr \<lparr>db = d\<rparr>)
   }"

text \<open>\<open>sqlite3_close\<close> fails and keeps the connection while one of its statements is not finalized.\<close>

definition deleteDatabase :: "sqlite \<Rightarrow> Database \<Rightarrow> (sql_history, unit) state" where
  "deleteDatabase sq d =
     (if db d \<noteq> 0 then ignoring (\<lambda>h. close_result sq h (db d)) (Closed_db (db d)) else State_Monad.return ())"

text \<open>
  The message of \<open>sqlite3_exec\<close> may be null (out of memory, misuse); the string made of it then
  throws, as libstdc++ does, and nothing is freed.
\<close>

definition executeSql :: "sqlite \<Rightarrow> Database \<Rightarrow> string \<Rightarrow> (sql_history, exn + unit) state" where
  "executeSql sq d sql = do {
     (rc, errMsg) \<leftarrow> ask (\<lambda>h. exec_result sq h (db d) (c_str sql)) (Exec (db d) (c_str sql));
     if rc \<noteq> SQLITE_OK then
       (case errMsg of
          None \<Rightarrow> State_Monad.return (Inl (Logic_error ''basic_string: construction from null is not valid''))
        | Some m \<Rightarrow> do {
            _ \<leftarrow> ask (\<lambda>_. ()) Free_errmsg;
            State_Monad.return (Inl (Database_exception (c_str m)))
          })
     else State_Monad.return (Inr ())
   }"

definition beginTransaction :: "sqlite \<Rightarrow> Database \<Rightarrow> (sql_history, exn + unit) state" where
  "beginTransaction sq d = executeSql sq d ''BEGIN TRANSACTION''"

definition commit :: "sqlite \<Rightarrow> Database \<Rightarrow> (sql_history, exn + unit) state" where
  "commit sq d = executeSql sq d ''COMMIT''"

definition rollback :: "sqlite \<Rightarrow> Database \<Rightarrow> (sql_history, exn + unit) state" where
  "rollback sq d = executeSql sq d ''ROLLBACK''"

definition lastInsertId :: "sqlite \<Rightarrow> Database \<Rightarrow> (sql_history, u32) state" where
  "lastInsertId sq d = do {
     r \<leftarrow> ask (\<lambda>h. last_insert_rowid sq h (db d)) (Last_insert_rowid (db d));
     State_Monad.return (ucast r)
   }"

definition enableForeignKeys :: "sqlite \<Rightarrow> Database \<Rightarrow> bool \<Rightarrow> (sql_history, exn + unit) state" where
  "enableForeignKeys sq d enable =
     executeSql sq d (if enable then ''PRAGMA foreign_keys = ON'' else ''PRAGMA foreign_keys = OFF'')"

section \<open>Statement\<close>

record Statement =
  stmt :: u64
  stmt_db :: Database

definition prepare :: "sqlite \<Rightarrow> Database \<Rightarrow> string \<Rightarrow> (sql_history, exn + Statement) state" where
  "prepare sq d sql = do {
     (rc, s) \<leftarrow> State (\<lambda>h. let r = prepare_result sq h (db d) (c_str sql)
                            in (r, h @ [Prepared (db d) (c_str sql) (fst r) (snd r)]));
     if rc \<noteq> SQLITE_OK then throwErrmsg sq (db d)
     else State_Monad.return (Inr \<lparr>stmt = s, stmt_db = d\<rparr>)
   }"

text \<open>\<open>Database::prepare\<close> makes a statement on the heap; its owner deletes it.\<close>

definition prepareOn :: "sqlite \<Rightarrow> Database \<Rightarrow> string \<Rightarrow> (sql_history, exn + Statement) state" where
  "prepareOn sq d sql = prepare sq d sql"

definition deleteStatement :: "Statement \<Rightarrow> (sql_history, unit) state" where
  "deleteStatement s = (if stmt s \<noteq> 0 then ask (\<lambda>_. ()) (Finalize (stmt s)) else State_Monad.return ())"

text \<open>The code of a \<open>sqlite3_bind\<close> function is ignored: a value that is not bound goes unnoticed.\<close>

definition bindValue :: "sqlite \<Rightarrow> Statement \<Rightarrow> u32 \<Rightarrow> sql_value \<Rightarrow> (sql_history, unit) state" where
  "bindValue sq s index v = ignoring (\<lambda>h. bind_result sq h (stmt s) index v) (Bind (stmt s) index v)"

definition bindInt :: "sqlite \<Rightarrow> Statement \<Rightarrow> u32 \<Rightarrow> u32 \<Rightarrow> (sql_history, unit) state" where
  "bindInt sq s index v = bindValue sq s index (Integer v)"

definition bindDouble :: "sqlite \<Rightarrow> Statement \<Rightarrow> u32 \<Rightarrow> u64 \<Rightarrow> (sql_history, unit) state" where
  "bindDouble sq s index v = bindValue sq s index (Double v)"

definition bindString :: "sqlite \<Rightarrow> Statement \<Rightarrow> u32 \<Rightarrow> string \<Rightarrow> (sql_history, unit) state" where
  "bindString sq s index v = bindValue sq s index (Text_value (c_str v))"

text \<open>
  \<open>data()\<close> of an empty vector may be null, and SQLite binds a null then; \<open>null_data\<close> says
  whether it is.
\<close>

definition bindBlob :: "sqlite \<Rightarrow> bool \<Rightarrow> Statement \<Rightarrow> u32 \<Rightarrow> byte list \<Rightarrow> (sql_history, unit) state" where
  "bindBlob sq null_data s index v =
     bindValue sq s index (if v = [] \<and> null_data then Null else Blob v (word_of_nat (length v)))"

definition bindNull :: "sqlite \<Rightarrow> Statement \<Rightarrow> u32 \<Rightarrow> (sql_history, unit) state" where
  "bindNull sq s index = bindValue sq s index Null"

definition executeStatement :: "sqlite \<Rightarrow> Statement \<Rightarrow> (sql_history, exn + bool) state" where
  "executeStatement sq s = do {
     rc \<leftarrow> ask (\<lambda>h. step_result sq h (stmt s)) (Step (stmt s));
     if rc \<noteq> SQLITE_DONE \<and> rc \<noteq> SQLITE_ROW then throwErrmsg sq (db (stmt_db s))
     else State_Monad.return (Inr (rc = SQLITE_ROW))
   }"

definition fetchRow :: "sqlite \<Rightarrow> Statement \<Rightarrow> (sql_history, exn + bool) state" where
  "fetchRow sq s = do {
     rc \<leftarrow> ask (\<lambda>h. step_result sq h (stmt s)) (Step (stmt s));
     if rc \<noteq> SQLITE_ROW \<and> rc \<noteq> SQLITE_DONE then throwErrmsg sq (db (stmt_db s))
     else State_Monad.return (Inr (rc = SQLITE_ROW))
   }"

definition getInt :: "sqlite \<Rightarrow> Statement \<Rightarrow> u32 \<Rightarrow> (sql_history, u32) state" where
  "getInt sq s column = ask (\<lambda>h. column_int sq h (stmt s) column) (Column (stmt s) column)"

definition getDouble :: "sqlite \<Rightarrow> Statement \<Rightarrow> u32 \<Rightarrow> (sql_history, u64) state" where
  "getDouble sq s column = ask (\<lambda>h. column_double sq h (stmt s) column) (Column (stmt s) column)"

definition getString :: "sqlite \<Rightarrow> Statement \<Rightarrow> u32 \<Rightarrow> (sql_history, string) state" where
  "getString sq s column = do {
     text \<leftarrow> ask (\<lambda>h. column_text sq h (stmt s) column) (Column (stmt s) column);
     State_Monad.return (case text of None \<Rightarrow> [] | Some t \<Rightarrow> c_str t)
   }"

text \<open>None: the range given to the vector does not lie in the block at the pointer (undefined).\<close>

definition getBlob :: "sqlite \<Rightarrow> Statement \<Rightarrow> u32 \<Rightarrow> (sql_history, byte list option) state" where
  "getBlob sq s column = do {
     blob \<leftarrow> ask (\<lambda>h. column_blob sq h (stmt s) column) (Column (stmt s) column);
     size \<leftarrow> ask (\<lambda>h. column_bytes sq h (stmt s) column) (Column (stmt s) column);
     let block = (case blob of None \<Rightarrow> [] | Some b \<Rightarrow> b);
     State_Monad.return
       (if 0 \<le> sint size \<and> nat (sint size) \<le> length block then Some (take (nat (sint size)) block) else None)
   }"

definition isNull :: "sqlite \<Rightarrow> Statement \<Rightarrow> u32 \<Rightarrow> (sql_history, bool) state" where
  "isNull sq s column = do {
     t \<leftarrow> ask (\<lambda>h. column_type sq h (stmt s) column) (Column (stmt s) column);
     State_Monad.return (t = SQLITE_NULL)
   }"

text \<open>The code of \<open>sqlite3_reset\<close> is ignored too.\<close>

definition resetStatement :: "sqlite \<Rightarrow> Statement \<Rightarrow> (sql_history, unit) state" where
  "resetStatement sq s = do {
     _ \<leftarrow> ignoring (\<lambda>h. reset_result sq h (stmt s)) (Reset (stmt s));
     ask (\<lambda>_. ()) (Clear_bindings (stmt s))
   }"

end
