(* ===== verification/Database_Thms.thy ===== *)
theory Database_Thms
  imports Database
begin

text \<open>
  The database layer: which calls of SQLite end in an exception, who owns the handles, and what
  becomes of a value that is bound and read back.
\<close>

section \<open>Runs\<close>

lemma run_throwErrmsg [simp]:
  "run_state (throwErrmsg sq d) h = (Inl (Database_exception (c_str (errmsg sq h d))), h @ [Errmsg d])"
  by (simp add: throwErrmsg_def)

text \<open>What \<open>sqlite3_exec\<close> answers, as an exception and the calls.\<close>

definition exec_outcome :: "u64 \<Rightarrow> string \<Rightarrow> u32 \<times> string option \<Rightarrow> (exn + unit) \<times> sql_call list" where
  "exec_outcome d sql r =
     (if fst r = SQLITE_OK then (Inr (), [Exec d sql])
      else case snd r of
             None \<Rightarrow> (Inl (Logic_error ''basic_string: construction from null is not valid''), [Exec d sql])
           | Some m \<Rightarrow> (Inl (Database_exception (c_str m)), [Exec d sql, Free_errmsg]))"

lemma run_executeSql:
  "run_state (executeSql sq d sql) h =
    (let r = exec_outcome (db d) (c_str sql) (exec_result sq h (db d) (c_str sql)) in (fst r, h @ snd r))"
  by (simp add: executeSql_def exec_outcome_def split: prod.split option.split)

text \<open>What \<open>sqlite3_step\<close> answers: an exception, or whether there is a row.\<close>

lemma run_step:
  "run_state (executeStatement sq s) h =
    (let c = step_result sq h (stmt s); h1 = h @ [Step (stmt s)]; d = db (stmt_db s) in
     if c = SQLITE_ROW then (Inr True, h1)
     else if c = SQLITE_DONE then (Inr False, h1)
     else (Inl (Database_exception (c_str (errmsg sq h1 d))), h1 @ [Errmsg d]))"
  "fetchRow sq s = executeStatement sq s"
  by (simp_all add: executeStatement_def fetchRow_def Let_def SQLITE_ROW_def SQLITE_DONE_def conj_commute)

lemma run_newDatabase:
  "run_state (newDatabase sq path) h =
    (let r = open_result sq h (c_str path); h1 = h @ [Opened (c_str path) (fst r) (snd r)] in
     if fst r = SQLITE_OK then (Inr \<lparr>db = snd r\<rparr>, h1)
     else (Inl (Database_exception (c_str (errmsg sq h1 (snd r)))), h1 @ [Errmsg (snd r)]))"
  by (simp add: newDatabase_def Let_def split: prod.split)

lemma run_prepare:
  "run_state (prepare sq d sql) h =
    (let r = prepare_result sq h (db d) (c_str sql); h1 = h @ [Prepared (db d) (c_str sql) (fst r) (snd r)] in
     if fst r = SQLITE_OK then (Inr \<lparr>stmt = snd r, stmt_db = d\<rparr>, h1)
     else (Inl (Database_exception (c_str (errmsg sq h1 (db d)))), h1 @ [Errmsg (db d)]))"
  by (simp add: prepare_def Let_def split: prod.split)

lemmas run_ops = run_newDatabase run_prepare run_executeSql run_step beginTransaction_def commit_def
  rollback_def enableForeignKeys_def

section \<open>Ownership\<close>

text \<open>
  The operations of a connection and of a statement that neither open nor close anything, as a
  client may call them in any order.
\<close>

datatype db_op = Op_execute string | Op_begin | Op_commit | Op_rollback | Op_last_id | Op_foreign_keys bool

datatype st_op =
    Op_bind_int u32 u32 | Op_bind_double u32 u64 | Op_bind_string u32 string | Op_bind_blob bool u32 "byte list"
  | Op_bind_null u32 | Op_step | Op_fetch | Op_int u32 | Op_double u32 | Op_string u32 | Op_blob u32 | Op_is_null u32
  | Op_reset

fun after_db_op :: "sqlite \<Rightarrow> Database \<Rightarrow> db_op \<Rightarrow> sql_history \<Rightarrow> sql_history" where
  "after_db_op sq d (Op_execute sql) h = snd (run_state (executeSql sq d sql) h)"
| "after_db_op sq d Op_begin h = snd (run_state (beginTransaction sq d) h)"
| "after_db_op sq d Op_commit h = snd (run_state (commit sq d) h)"
| "after_db_op sq d Op_rollback h = snd (run_state (rollback sq d) h)"
| "after_db_op sq d Op_last_id h = snd (run_state (lastInsertId sq d) h)"
| "after_db_op sq d (Op_foreign_keys e) h = snd (run_state (enableForeignKeys sq d e) h)"

fun after_st_op :: "sqlite \<Rightarrow> Statement \<Rightarrow> st_op \<Rightarrow> sql_history \<Rightarrow> sql_history" where
  "after_st_op sq s (Op_bind_int i v) h = snd (run_state (bindInt sq s i v) h)"
| "after_st_op sq s (Op_bind_double i v) h = snd (run_state (bindDouble sq s i v) h)"
| "after_st_op sq s (Op_bind_string i v) h = snd (run_state (bindString sq s i v) h)"
| "after_st_op sq s (Op_bind_blob n i v) h = snd (run_state (bindBlob sq n s i v) h)"
| "after_st_op sq s (Op_bind_null i) h = snd (run_state (bindNull sq s i) h)"
| "after_st_op sq s Op_step h = snd (run_state (executeStatement sq s) h)"
| "after_st_op sq s Op_fetch h = snd (run_state (fetchRow sq s) h)"
| "after_st_op sq s (Op_int c) h = snd (run_state (getInt sq s c) h)"
| "after_st_op sq s (Op_double c) h = snd (run_state (getDouble sq s c) h)"
| "after_st_op sq s (Op_string c) h = snd (run_state (getString sq s c) h)"
| "after_st_op sq s (Op_blob c) h = snd (run_state (getBlob sq s c) h)"
| "after_st_op sq s (Op_is_null c) h = snd (run_state (isNull sq s c) h)"
| "after_st_op sq s Op_reset h = snd (run_state (resetStatement sq s) h)"

text \<open>
  Every program over the two classes: the history, the connections and the statements alive.
  A prepared statement belongs to one of the connections and is used only while that is alive;
  either may be destroyed first. The flag tells whether no connection has been destroyed before
  one of its statements.
\<close>

inductive session :: "sqlite \<Rightarrow> bool \<Rightarrow> sql_history \<Rightarrow> Database multiset \<Rightarrow> Statement multiset \<Rightarrow> bool" for sq where
  start: "session sq True [] {#} {#}"
| opened: "session sq b h ds ss \<Longrightarrow> run_state (newDatabase sq path) h = (Inr d, h') \<Longrightarrow> session sq b h' (add_mset d ds) ss"
| not_opened: "session sq b h ds ss \<Longrightarrow> run_state (newDatabase sq path) h = (Inl e, h') \<Longrightarrow> session sq b h' ds ss"
| used: "session sq b h ds ss \<Longrightarrow> d \<in># ds \<Longrightarrow> session sq b (after_db_op sq d op h) ds ss"
| closed: "session sq b h (add_mset d ds) ss \<Longrightarrow> run_state (deleteDatabase sq d) h = ((), h') \<Longrightarrow>
    session sq (b \<and> (\<forall>s \<in># ss. db (stmt_db s) \<noteq> db d)) h' ds ss"
| prepared: "session sq b h ds ss \<Longrightarrow> d \<in># ds \<Longrightarrow> run_state (prepareOn sq d sql) h = (Inr s, h') \<Longrightarrow>
    session sq b h' ds (add_mset s ss)"
| not_prepared: "session sq b h ds ss \<Longrightarrow> d \<in># ds \<Longrightarrow> run_state (prepareOn sq d sql) h = (Inl e, h') \<Longrightarrow> session sq b h' ds ss"
| used_statement: "session sq b h ds ss \<Longrightarrow> s \<in># ss \<Longrightarrow> stmt_db s \<in># ds \<Longrightarrow> session sq b (after_st_op sq s op h) ds ss"
| finalized: "session sq b h ds (add_mset s ss) \<Longrightarrow> run_state (deleteStatement s) h = ((), h') \<Longrightarrow> session sq b h' ds ss"

text \<open>
  The handles a call obtains and gives back. A failed \<open>sqlite3_open\<close> also obtains one, which no
  object holds; a failed \<open>sqlite3_close\<close> gives none back, though its object is gone.
\<close>

definition some_handle :: "u64 \<Rightarrow> u64 multiset" where
  "some_handle d = (if d = 0 then {#} else {#d#})"

fun obtains_db :: "sql_call \<Rightarrow> u64 multiset" where
  "obtains_db (Opened p rc d) = some_handle d" | "obtains_db _ = {#}"

fun leaks_db :: "sql_call \<Rightarrow> u64 multiset" where
  "leaks_db (Opened p rc d) = (if rc = SQLITE_OK then {#} else some_handle d)" | "leaks_db _ = {#}"

fun returns_db :: "sql_call \<Rightarrow> u64 multiset" where
  "returns_db (Closed_db d rc) = (if rc = SQLITE_OK then {#d#} else {#})" | "returns_db _ = {#}"

fun strands_db :: "sql_call \<Rightarrow> u64 multiset" where
  "strands_db (Closed_db d rc) = (if rc = SQLITE_OK then {#} else {#d#})" | "strands_db _ = {#}"

fun obtains_stmt :: "sql_call \<Rightarrow> u64 multiset" where
  "obtains_stmt (Prepared d sql rc s) = some_handle s" | "obtains_stmt _ = {#}"

fun returns_stmt :: "sql_call \<Rightarrow> u64 multiset" where
  "returns_stmt (Finalize s) = {#s#}" | "returns_stmt _ = {#}"

definition total :: "(sql_call \<Rightarrow> u64 multiset) \<Rightarrow> sql_history \<Rightarrow> u64 multiset" where
  "total f h = sum_list (map f h)"

lemma total_simps [simp]: "total f [] = {#}" "total f (xs @ ys) = total f xs + total f ys" "total f [c] = f c"
  "total f (c # cs) = f c + total f cs"
  by (simp_all add: total_def)

lemma after_db_op_total:
  assumes "f \<in> {obtains_db, leaks_db, returns_db, strands_db, obtains_stmt, returns_stmt}"
  shows "total f (after_db_op sq d op h) = total f h"
  using assms
  by (cases op) (auto simp: run_ops lastInsertId_def Let_def exec_outcome_def split: option.split)

lemma after_st_op_total:
  assumes "f \<in> {obtains_db, leaks_db, returns_db, strands_db, obtains_stmt, returns_stmt}"
  shows "total f (after_st_op sq s op h) = total f h"
  using assms
  by (cases op) (auto simp: run_ops bindValue_def bindInt_def bindDouble_def bindString_def bindBlob_def bindNull_def getInt_def
      getDouble_def getString_def getBlob_def isNull_def resetStatement_def Let_def)

text \<open>The handles that the objects alive will give back.\<close>

definition owned_db :: "Database multiset \<Rightarrow> u64 multiset" where
  "owned_db ds = (\<Sum>d \<in># ds. some_handle (db d))"

definition owned_stmt :: "Statement multiset \<Rightarrow> u64 multiset" where
  "owned_stmt ss = (\<Sum>s \<in># ss. some_handle (stmt s))"

lemma owned_simps [simp]:
  "owned_db {#} = {#}" "owned_db (add_mset d ds) = some_handle (db d) + owned_db ds"
  "owned_stmt {#} = {#}" "owned_stmt (add_mset s ss) = some_handle (stmt s) + owned_stmt ss"
  by (simp_all add: owned_db_def owned_stmt_def)

text \<open>The statements that a connection has, as SQLite knows them: prepared and not finalized since.\<close>

fun live_after :: "sql_call \<Rightarrow> (u64 \<times> u64) list \<Rightarrow> (u64 \<times> u64) list" where
  "live_after (Prepared d sql rc s) ps = (if s = 0 then ps else (d, s) # ps)"
| "live_after (Finalize s) ps = filter (\<lambda>(d, t). t \<noteq> s) ps"
| "live_after _ ps = ps"

definition live :: "sql_history \<Rightarrow> (u64 \<times> u64) list" where
  "live h = fold live_after h []"

lemma live_simps [simp]: "live [] = []" "live (h @ [c]) = live_after c (live h)"
  by (simp_all add: live_def)

lemma live_not_null: "(d, t) \<in> set (live h) \<Longrightarrow> t \<noteq> 0"
proof (induction h rule: rev_induct)
  case (snoc c h)
  then show ?case by (cases c) (auto split: if_splits)
qed simp

definition is_open :: "sql_history \<Rightarrow> u64 \<Rightarrow> bool" where
  "is_open h d \<longleftrightarrow> count (total returns_db h) d < count (total obtains_db h) d"

text \<open>
  As SQLite documents: a connection is opened with a handle that is not null; on an open
  connection a failed \<open>sqlite3_prepare\<close> gives no statement, and \<open>sqlite3_close\<close> succeeds unless there are
  statements that are not finalized, when it answers busy and keeps the connection.
\<close>

definition handle_laws :: "sqlite \<Rightarrow> bool" where
  "handle_laws sq \<longleftrightarrow>
     (\<forall>h path. fst (open_result sq h path) = SQLITE_OK \<longrightarrow> snd (open_result sq h path) \<noteq> 0) \<and>
     (\<forall>h d sql. is_open h d \<and> fst (prepare_result sq h d sql) \<noteq> SQLITE_OK \<longrightarrow> snd (prepare_result sq h d sql) = 0) \<and>
     (\<forall>h d. is_open h d \<longrightarrow> close_result sq h d = (if d \<in> fst ` set (live h) then SQLITE_BUSY else SQLITE_OK))"

definition accounted :: "bool \<Rightarrow> sql_history \<Rightarrow> Database multiset \<Rightarrow> Statement multiset \<Rightarrow> bool" where
  "accounted b h ds ss \<longleftrightarrow>
     total obtains_db h = total returns_db h + total leaks_db h + total strands_db h + owned_db ds \<and>
     total obtains_stmt h = total returns_stmt h + owned_stmt ss \<and>
     (\<forall>d \<in># ds. db d \<noteq> 0) \<and>
     set (live h) \<subseteq> (\<lambda>s. (db (stmt_db s), stmt s)) ` set_mset ss \<and>
     (b \<longrightarrow> total strands_db h = {#})"

lemma accounted_open: "accounted b h ds ss \<Longrightarrow> d \<in># ds \<Longrightarrow> is_open h (db d) \<and> db d \<noteq> 0"
proof -
  assume a: "accounted b h ds ss" "d \<in># ds"
  then obtain ds' where ds: "ds = add_mset d ds'" by (metis multi_member_split)
  have "db d \<noteq> 0" using a by (simp add: accounted_def)
  moreover from this have "is_open h (db d)" using a(1) ds by (simp add: is_open_def accounted_def some_handle_def)
  ultimately show ?thesis by simp
qed

lemma after_db_op_live [simp]: "live (after_db_op sq d op h) = live h"
proof -
  have "live (h @ snd (exec_outcome e sql r)) = live h" for e sql r
    by (auto simp: exec_outcome_def live_def split: option.split)
  then show ?thesis by (cases op) (auto simp: run_ops lastInsertId_def Let_def)
qed

lemma after_st_op_live [simp]: "live (after_st_op sq s op h) = live h"
  by (cases op) (auto simp: run_ops bindValue_def bindInt_def bindDouble_def bindString_def bindBlob_def bindNull_def getInt_def
      getDouble_def getString_def getBlob_def isNull_def resetStatement_def Let_def live_def)

lemma accounted_use:
  assumes "accounted b h ds ss" "live h' = live h"
    and "\<And>f. f \<in> {obtains_db, leaks_db, returns_db, strands_db, obtains_stmt, returns_stmt} \<Longrightarrow> total f h' = total f h"
  shows "accounted b h' ds ss"
  using assms by (simp add: accounted_def)

lemma session_accounted:
  assumes "session sq b h ds ss" and law: "handle_laws sq"
  shows "accounted b h ds ss"
  using assms(1)
proof (induction rule: session.induct)
  case start
  then show ?case by (simp add: accounted_def)
next
  case (opened b h ds ss path d h')
  then show ?case using law by (auto simp: accounted_def run_ops Let_def handle_laws_def split: if_splits)
next
  case (not_opened b h ds ss path e h')
  then show ?case by (auto simp: accounted_def run_ops Let_def simp flip: append_assoc split: if_splits)
next
  case (used b h ds ss d op)
  show ?case by (rule accounted_use [OF used.IH]) (simp_all only: after_db_op_live after_db_op_total)
next
  case (closed b h d ds ss h')
  have d: "is_open h (db d)" "db d \<noteq> 0" using accounted_open [OF closed.IH, of d] by simp_all
  let ?rc = "close_result sq h (db d)"
  have h': "h' = h @ [Closed_db (db d) ?rc]" using closed.hyps(2) d(2) by (simp add: deleteDatabase_def)
  have ok: "?rc = SQLITE_OK" if "\<forall>s \<in># ss. db (stmt_db s) \<noteq> db d"
    using that closed.IH law d(1) by (fastforce simp: accounted_def handle_laws_def)
  show ?case using closed.IH ok d(2) by (auto simp: accounted_def h' some_handle_def)
next
  case (prepared b h ds ss d sql s h')
  then show ?case by (auto simp: accounted_def prepareOn_def run_ops Let_def split: if_splits)
next
  case (not_prepared b h ds ss d sql e h')
  have "is_open h (db d)" using accounted_open [OF not_prepared.IH not_prepared.hyps(2)] by simp
  then show ?case using not_prepared.hyps not_prepared.IH law
    by (auto simp: accounted_def handle_laws_def prepareOn_def some_handle_def run_ops Let_def simp flip: append_assoc split: if_splits)
next
  case (used_statement b h ds ss s op)
  show ?case by (rule accounted_use [OF used_statement.IH]) (simp_all only: after_st_op_live after_st_op_total)
next
  case (finalized b h ds s ss h')
  let ?own = "(\<lambda>s. (db (stmt_db s), stmt s)) ` set_mset ss"
  have "set (live h') \<subseteq> {(d, t) \<in> set (live h). t \<noteq> stmt s}"
    using finalized.hyps(2) by (auto simp: deleteStatement_def dest: live_not_null split: if_splits)
  moreover have "set (live h) \<subseteq> insert (db (stmt_db s), stmt s) ?own" using finalized.IH by (simp add: accounted_def)
  ultimately have "set (live h') \<subseteq> ?own" by fast
  moreover have "accounted b h' ds ss" if "set (live h') \<subseteq> ?own"
    using that finalized.hyps(2) finalized.IH
    by (simp add: accounted_def) (auto simp: deleteStatement_def some_handle_def split: if_splits)
  ultimately show ?case by blast
qed

section \<open>Values\<close>

text \<open>
  How SQLite sees the statement \<open>SELECT ?1\<close>: ready to be run, on its only row, or past it, and the
  value bound to its parameter. \<open>track h s\<close> reads it off the history; None: \<open>s\<close> is no such statement,
  or finalized, or a value that was too big has replaced one and nothing is known of it.
\<close>

datatype select_status = Ready | On_row | Past

fun track_call :: "u64 \<Rightarrow> sql_call \<Rightarrow> (select_status \<times> sql_value) option \<Rightarrow> (select_status \<times> sql_value) option" where
  "track_call s (Prepared d sql rc s') t =
     (if s' \<noteq> s then t else if rc = SQLITE_OK \<and> sql = ''SELECT ?1'' then Some (Ready, Null) else None)"
| "track_call s (Finalize s') t = (if s' = s then None else t)"
| "track_call s (Bind s' i v rc) t =
     (if s' \<noteq> s \<or> i \<noteq> 1 \<or> rc = SQLITE_MISUSE then t
      else if rc = SQLITE_OK then map_option (\<lambda>(st, w). (st, v)) t
      else case t of Some (st, Null) \<Rightarrow> t | _ \<Rightarrow> None)"
| "track_call s (Step s') t = (if s' = s then map_option (\<lambda>(st, w). (if st = Ready then On_row else Past, w)) t else t)"
| "track_call s (Reset s' rc) t = (if s' = s then map_option (\<lambda>(st, w). (Ready, w)) t else t)"
| "track_call s (Clear_bindings s') t = (if s' = s then map_option (\<lambda>(st, w). (st, Null)) t else t)"
| "track_call s _ t = t"

definition track :: "sql_history \<Rightarrow> u64 \<Rightarrow> (select_status \<times> sql_value) option" where
  "track h s = fold (track_call s) h None"

lemma track_simps [simp]: "track (h @ [c]) s = track_call s c (track h s)" "track (h @ c # cs) s = fold (track_call s) cs (track_call s c (track h s))"
  by (simp_all add: track_def)

text \<open>
  What a column of the row gives for the value bound. A double is left out, because a NaN is
  stored as a null. An empty blob is read as a null pointer of zero bytes.
\<close>

definition shows_value :: "sqlite \<Rightarrow> sql_history \<Rightarrow> u64 \<Rightarrow> sql_value \<Rightarrow> bool" where
  "shows_value sq h s v =
     (case v of
        Null \<Rightarrow> column_type sq h s 0 = SQLITE_NULL \<and> column_text sq h s 0 = None \<and>
          column_blob sq h s 0 = None \<and> column_bytes sq (h @ [Column s 0]) s 0 = 0
      | Integer i \<Rightarrow> column_int sq h s 0 = i \<and> column_type sq h s 0 = 1
      | Double d \<Rightarrow> True
      | Text_value t \<Rightarrow> column_text sq h s 0 = Some t \<and> column_type sq h s 0 = SQLITE_TEXT
      | Blob b n \<Rightarrow>
          column_blob sq h s 0 = (if n = 0 then None else Some (take (unat n) b)) \<and>
          column_bytes sq (h @ [Column s 0]) s 0 = n \<and> column_type sq h s 0 = 4)"

fun fits :: "nat \<Rightarrow> sql_value \<Rightarrow> bool" where
  "fits lim (Text_value t) = (length t \<le> lim)"
| "fits lim (Blob b n) = (unat n \<le> lim)"
| "fits lim v = True"

text \<open>
  As SQLite documents: a value is bound to a statement that is ready, up to the length limit of the
  connection, and is too big beyond it; to a statement stepped and not reset it is not bound
  (misuse); the first step of a ready statement gives the row, whose column is the value.
\<close>

definition select_law :: "sqlite \<Rightarrow> nat \<Rightarrow> bool" where
  "select_law sq lim \<longleftrightarrow> (\<forall>h s st v. track h s = Some (st, v) \<longrightarrow>
     (\<forall>x. bind_result sq h s 1 x =
        (if st \<noteq> Ready then SQLITE_MISUSE else if fits lim x then SQLITE_OK else SQLITE_TOOBIG)) \<and>
     (st = Ready \<longrightarrow> step_result sq h s = SQLITE_ROW) \<and>
     (st = On_row \<longrightarrow> shows_value sq h s v))"

text \<open>Reset, bind, step and read: the program of the round trips.\<close>

definition through :: "sqlite \<Rightarrow> Statement \<Rightarrow> (sql_history, unit) state \<Rightarrow> (sql_history, 'a) state \<Rightarrow> sql_history \<Rightarrow> 'a" where
  "through sq s put got h =
     fst (run_state (do { _ \<leftarrow> resetStatement sq s; _ \<leftarrow> put; _ \<leftarrow> executeStatement sq s; got }) h)"

lemma through_bound:
  assumes law: "select_law sq lim" and "track h (stmt s) \<noteq> None"
  obtains h' where "through sq s (bindValue sq s 1 v) got h = fst (run_state got h')"
    "shows_value sq h' (stmt s) (if fits lim v then v else Null)"
proof -
  obtain st w where t: "track h (stmt s) = Some (st, w)" using assms(2) by force
  define h1 where "h1 = h @ [Reset (stmt s) (reset_result sq h (stmt s)), Clear_bindings (stmt s)]"
  define h2 where "h2 = h1 @ [Bind (stmt s) 1 v (bind_result sq h1 (stmt s) 1 v)]"
  have t1: "track h1 (stmt s) = Some (Ready, Null)" by (simp add: h1_def t)
  then have "bind_result sq h1 (stmt s) 1 v = (if fits lim v then SQLITE_OK else SQLITE_TOOBIG)"
    using law unfolding select_law_def by fastforce
  then have t2: "track h2 (stmt s) = Some (Ready, if fits lim v then v else Null)"
    using t1 by (simp add: h2_def SQLITE_OK_def SQLITE_TOOBIG_def SQLITE_MISUSE_def)
  then have row: "step_result sq h2 (stmt s) = SQLITE_ROW" using law unfolding select_law_def by blast
  have "track (h2 @ [Step (stmt s)]) (stmt s) = Some (On_row, if fits lim v then v else Null)" using t2 by simp
  then have "shows_value sq (h2 @ [Step (stmt s)]) (stmt s) (if fits lim v then v else Null)"
    using law unfolding select_law_def by blast
  moreover have "through sq s (bindValue sq s 1 v) got h = fst (run_state got (h2 @ [Step (stmt s)]))"
    using row by (simp add: through_def resetStatement_def bindValue_def run_step Let_def h2_def h1_def)
  ultimately show ?thesis by (rule that [rotated])
qed

lemma size_cast: "length v < 2 ^ 31 \<Longrightarrow> sint (word_of_nat (length v) :: u32) = int (length v)"
  by (simp add: sint_uint unat_of_nat uint_nat signed_take_bit_int_eq_self)

text \<open>The cast of a 64-bit number to an \<open>int\<close>.\<close>

lemma sint_ucast_fits: "sint (ucast (r :: u64) :: u32) = sint r \<longleftrightarrow> - (2 ^ 31) \<le> sint r \<and> sint r < 2 ^ 31"
proof -
  have "sint (ucast r :: u32) = signed_take_bit 31 (uint r)"
    by (simp add: sint_uint unsigned_ucast_eq signed_take_bit_eq_iff_take_bit_eq)
  also have "\<dots> = signed_take_bit 31 (sint r)"
    by (simp add: sint_uint signed_take_bit_take_bit)
  finally have "sint (ucast r :: u32) = signed_take_bit 31 (sint r)" .
  then show ?thesis using signed_take_bit_int_eq_self_iff [of 31 "sint r"] by simp
qed

section \<open>Properties\<close>


text \<open>An SQLite that gives every open connection the handle 1 and every statement the handle 2.\<close>

definition tracked_value :: "sql_history \<Rightarrow> u64 \<Rightarrow> sql_value" where
  "tracked_value h s = (case track h s of Some (st, v) \<Rightarrow> v | None \<Rightarrow> Null)"

definition selectSqlite :: sqlite where
  "selectSqlite = \<lparr>
     open_result = (\<lambda>h p. (SQLITE_OK, 1)),
     close_result = (\<lambda>h d. if d \<in> fst ` set (live h) then SQLITE_BUSY else SQLITE_OK),
     prepare_result = (\<lambda>h d sql. (SQLITE_OK, 2)),
     exec_result = (\<lambda>h d sql. (SQLITE_OK, None)),
     errmsg = (\<lambda>h d. []),
     last_insert_rowid = (\<lambda>h d. 0),
     bind_result = (\<lambda>h s i x. case track h s of
        Some (Ready, v) \<Rightarrow> if fits 1000000000 x then SQLITE_OK else SQLITE_TOOBIG | _ \<Rightarrow> SQLITE_MISUSE),
     reset_result = (\<lambda>h s. SQLITE_OK),
     step_result = (\<lambda>h s. case track h s of Some (Ready, v) \<Rightarrow> SQLITE_ROW | _ \<Rightarrow> SQLITE_DONE),
     column_int = (\<lambda>h s c. case tracked_value h s of Integer i \<Rightarrow> i | _ \<Rightarrow> 0),
     column_double = (\<lambda>h s c. 0),
     column_text = (\<lambda>h s c. case tracked_value h s of Text_value t \<Rightarrow> Some t | _ \<Rightarrow> None),
     column_blob = (\<lambda>h s c. case tracked_value h s of Blob b n \<Rightarrow> if n = 0 then None else Some (take (unat n) b) | _ \<Rightarrow> None),
     column_bytes = (\<lambda>h s c. case tracked_value h s of Blob b n \<Rightarrow> n | _ \<Rightarrow> 0),
     column_type = (\<lambda>h s c. case tracked_value h s of Null \<Rightarrow> SQLITE_NULL | Integer i \<Rightarrow> 1 | Double d \<Rightarrow> 2
                            | Text_value t \<Rightarrow> SQLITE_TEXT | Blob b n \<Rightarrow> 4)\<rparr>"

lemma selectSqlite_law: "select_law selectSqlite 1000000000"
  unfolding select_law_def
  by (auto simp: shows_value_def selectSqlite_def tracked_value_def split: sql_value.split select_status.split)

lemma selectSqlite_handles: "handle_laws selectSqlite"
  by (auto simp: handle_laws_def selectSqlite_def)

definition selected :: sql_history where
  "selected = [Opened ''a.db'' SQLITE_OK 1, Prepared 1 ''SELECT ?1'' SQLITE_OK 2, Bind 2 1 (Integer 5) SQLITE_OK, Step 2]"


text \<open>
  C18. Every handle is accounted for, in every program over the two classes. The connections
  obtained are those closed, those alive, those of failed constructors, which nobody can close, and
  those that \<open>sqlite3_close\<close> refused to close, which nobody holds any more; the statements obtained
  are those finalized and those alive. No connection is refused as long as none is destroyed
  before its statements.
\<close>

theorem handles_accounted:
  assumes "session sq b h ds ss" and "handle_laws sq"
  shows "total obtains_db h = total returns_db h + total leaks_db h + total strands_db h + (\<Sum>d \<in># ds. some_handle (db d)) \<and>
    total obtains_stmt h = total returns_stmt h + (\<Sum>s \<in># ss. some_handle (stmt s)) \<and>
    (b \<longrightarrow> total strands_db h = {#})"
  using session_accounted [OF assms] by (simp add: accounted_def owned_db_def owned_stmt_def)

text \<open>A connection destroyed before its statement: it is never closed.\<close>

theorem handles_accounted_witness:
  "\<exists>h. session selectSqlite False h {#} {#} \<and> total obtains_db h = {#1#} \<and> total strands_db h = {#1#} \<and>
     total returns_db h + total leaks_db h = {#}"
proof -
  let ?d = "\<lparr>db = 1\<rparr>" and ?s = "\<lparr>stmt = 2, stmt_db = \<lparr>db = 1\<rparr>\<rparr>"
  let ?h1 = "[Opened [] SQLITE_OK 1]"
  let ?h2 = "?h1 @ [Prepared 1 [] SQLITE_OK 2]"
  let ?h3 = "?h2 @ [Closed_db 1 SQLITE_BUSY]"
  let ?h4 = "?h3 @ [Finalize 2]"
  have "run_state (newDatabase selectSqlite []) [] = (Inr ?d, ?h1)"
    by (simp add: run_newDatabase Let_def c_str_def selectSqlite_def)
  then have 1: "session selectSqlite True ?h1 {#?d#} {#}" by (rule session.opened [OF session.start])
  have "run_state (prepareOn selectSqlite ?d []) ?h1 = (Inr ?s, ?h2)"
    by (simp add: prepareOn_def run_prepare Let_def c_str_def selectSqlite_def)
  then have 2: "session selectSqlite True ?h2 {#?d#} {#?s#}" by (intro session.prepared [OF 1]) simp_all
  have "run_state (deleteDatabase selectSqlite ?d) ?h2 = ((), ?h3)"
    by (simp add: deleteDatabase_def selectSqlite_def live_def)
  from session.closed [OF 2 this] have 3: "session selectSqlite False ?h3 {#} {#?s#}" by simp
  have "run_state (deleteStatement ?s) ?h3 = ((), ?h4)" by (simp add: deleteStatement_def)
  from session.finalized [OF 3 this] have 4: "session selectSqlite False ?h4 {#} {#}" .
  from handles_accounted [OF 4 selectSqlite_handles] 4 show ?thesis
    by (intro exI [of _ ?h4]) (simp add: some_handle_def SQLITE_OK_def SQLITE_BUSY_def)
qed

text \<open>
  Which codes of SQLite become exceptions: a statement of SQL throws exactly when \<open>sqlite3_exec\<close>
  fails, after freeing the message once; a step throws exactly on a code that is neither a row nor
  the end, and otherwise says whether there is a row; \<open>prepare\<close> and the constructor throw exactly
  when there is no statement or connection. The codes of \<open>sqlite3_bind\<close>, \<open>sqlite3_reset\<close> and
  \<open>sqlite3_close\<close> never do. The row id of the last insertion is returned as it is exactly when it
  fits 32 bits.
\<close>

lemma database_errors:
  "(\<exists>cs. run_state (executeSql sq d sql) h =
      ((case exec_result sq h (db d) (c_str sql) of
          (rc, m) \<Rightarrow> if rc = SQLITE_OK then Inr ()
                     else Inl (case m of None \<Rightarrow> Logic_error ''basic_string: construction from null is not valid''
                                       | Some t \<Rightarrow> Database_exception (c_str t))), h @ cs) \<and>
      count_list cs Free_errmsg =
        (if fst (exec_result sq h (db d) (c_str sql)) \<noteq> SQLITE_OK \<and> snd (exec_result sq h (db d) (c_str sql)) \<noteq> None
         then 1 else 0)) \<and>
   (let c = step_result sq h' (stmt s) in
      fst (run_state (executeStatement sq s) h') = fst (run_state (fetchRow sq s) h') \<and>
      (isl (fst (run_state (executeStatement sq s) h')) \<longleftrightarrow> c \<notin> {SQLITE_ROW, SQLITE_DONE}) \<and>
      (fst (run_state (executeStatement sq s) h') = Inr True \<longleftrightarrow> c = SQLITE_ROW)) \<and>
   (isl (fst (run_state (prepare sq d sql) h)) \<longleftrightarrow> fst (prepare_result sq h (db d) (c_str sql)) \<noteq> SQLITE_OK) \<and>
   (isl (fst (run_state (newDatabase sq path) h)) \<longleftrightarrow> fst (open_result sq h (c_str path)) \<noteq> SQLITE_OK) \<and>
   (sint (fst (run_state (lastInsertId sq d) h)) = sint (last_insert_rowid sq h (db d)) \<longleftrightarrow>
      - (2 ^ 31) \<le> sint (last_insert_rowid sq h (db d)) \<and> sint (last_insert_rowid sq h (db d)) < 2 ^ 31)"
proof (intro conjI)
  show "\<exists>cs. run_state (executeSql sq d sql) h =
      ((case exec_result sq h (db d) (c_str sql) of
          (rc, m) \<Rightarrow> if rc = SQLITE_OK then Inr ()
                     else Inl (case m of None \<Rightarrow> Logic_error ''basic_string: construction from null is not valid''
                                       | Some t \<Rightarrow> Database_exception (c_str t))), h @ cs) \<and>
      count_list cs Free_errmsg =
        (if fst (exec_result sq h (db d) (c_str sql)) \<noteq> SQLITE_OK \<and> snd (exec_result sq h (db d) (c_str sql)) \<noteq> None
         then 1 else 0)"
    by (auto simp: run_executeSql exec_outcome_def Let_def split: prod.split option.split)
  show "sint (fst (run_state (lastInsertId sq d) h)) = sint (last_insert_rowid sq h (db d)) \<longleftrightarrow>
      - (2 ^ 31) \<le> sint (last_insert_rowid sq h (db d)) \<and> sint (last_insert_rowid sq h (db d)) < 2 ^ 31"
    by (simp add: lastInsertId_def sint_ucast_fits)
qed (auto simp: run_ops Let_def SQLITE_ROW_def SQLITE_DONE_def)

end
