(* ===== verification/Overlapped_Context.thy ===== *)
theory Overlapped_Context
  imports Socket_Utils
begin

text \<open>
  The per-client context of the two prototypes on a completion port, \<open>struct ClientContext\<close> of
  \<open>src/tests/chat/chat_server.h\<close> and of \<open>src/tests/IOCP_echo/iocp_server.h\<close>, which are the same: a
  buffer of 1024 characters followed by the member \<open>bytesTransferred\<close>, of four.
\<close>

datatype OperationType = Read | Write

record ClientContext =
  ctx_socket :: SOCKET
  ctx_buffer :: string
  ctx_bytesTransferred :: string
  ctx_operation :: OperationType

definition BUFFER_SIZE :: nat where "BUFFER_SIZE = 1024"

text \<open>\<open>ZeroMemory\<close> on a new context, and the fields set afterwards.\<close>

definition newContext :: "SOCKET \<Rightarrow> ClientContext" where
  "newContext s = \<lparr>ctx_socket = s, ctx_buffer = replicate BUFFER_SIZE (CHR 0x00),
     ctx_bytesTransferred = replicate 4 (CHR 0x00), ctx_operation = Read\<rparr>"

text \<open>What the kernel does to the buffer when it completes a receive.\<close>

definition received :: "string \<Rightarrow> ClientContext \<Rightarrow> ClientContext" where
  "received data c = c\<lparr>ctx_buffer := data @ drop (length data) (ctx_buffer c)\<rparr>"

text \<open>
  \<open>buffer[n] = 0\<close>: when the buffer is full this is the first byte of the next member, which
  nobody reads.
\<close>

definition terminate_at :: "nat \<Rightarrow> ClientContext \<Rightarrow> ClientContext" where
  "terminate_at n c =
     (if n < BUFFER_SIZE then c\<lparr>ctx_buffer := (ctx_buffer c)[n := CHR 0x00]\<rparr>
      else c\<lparr>ctx_bytesTransferred := (ctx_bytesTransferred c)[n - BUFFER_SIZE := CHR 0x00]\<rparr>)"

definition ctx_ok :: "ClientContext \<Rightarrow> bool" where
  "ctx_ok c \<longleftrightarrow> length (ctx_buffer c) = BUFFER_SIZE \<and> length (ctx_bytesTransferred c) = 4"

lemma newContext_ok [simp]: "ctx_ok (newContext s)" "ctx_socket (newContext s) = s"
  by (simp_all add: ctx_ok_def newContext_def)

lemma received_simps [simp]:
  "ctx_socket (received d c) = ctx_socket c" "ctx_operation (received d c) = ctx_operation c"
  by (simp_all add: received_def)

lemma terminate_at_simps [simp]:
  "ctx_socket (terminate_at n c) = ctx_socket c" "ctx_operation (terminate_at n c) = ctx_operation c"
  by (simp_all add: terminate_at_def)

lemma ctx_ok_received: "ctx_ok c \<Longrightarrow> length d \<le> BUFFER_SIZE \<Longrightarrow> ctx_ok (received d c)"
  by (simp add: ctx_ok_def received_def)

lemma ctx_ok_terminate: "ctx_ok c \<Longrightarrow> ctx_ok (terminate_at n c)"
  by (simp add: ctx_ok_def terminate_at_def)

text \<open>The bytes received are read back unharmed by the zero after them.\<close>

lemma take_terminated: "take (length d) (ctx_buffer (terminate_at (length d) (received d c))) = d"
  by (simp add: terminate_at_def received_def)

end
