(* ===== verification/Chat_Server.thy ===== *)
theory Chat_Server
  imports Overlapped_Context
begin

text \<open>
  The chat server, \<open>src/tests/chat/chat_server.h\<close> and \<open>chat_server.cpp\<close>: clients on a completion
  port, each first asked for a nickname, then heard by all others.

  The operations are functions on the state of the server. The second part interleaves the
  worker threads, the accepting thread and \<open>stopServer\<close>: a section under \<open>clientsMutex\<close> is one
  step, and the accesses outside it are steps of their own.
\<close>

section \<open>State\<close>

datatype ClientState = AWAITING_NICKNAME | IN_CHAT

text \<open>A context is named by its address.\<close>

record ClientInfo =
  ci_socket :: SOCKET
  nickname :: string
  ci_context :: nat
  ci_state :: ClientState

text \<open>
  \<open>contexts\<close> is the heap of the contexts made by \<open>new\<close> and not yet deleted. \<open>receiving\<close> belongs to
  the kernel: the contexts with a receive posted and not completed.
\<close>

record chat =
  chat_clients :: "ClientInfo list"
  clientsMutex :: bool
  contexts :: "nat \<Rightarrow> ClientContext option"
  receiving :: "nat set"
  chat_calls :: history

text \<open>
  How an operation ends: normally; with its thread waiting for ever for the mutex; or by using
  a context that was deleted.
\<close>

datatype chat_end = Next chat | Hangs chat | Use_after_free chat

fun and_then :: "chat_end \<Rightarrow> (chat \<Rightarrow> chat_end) \<Rightarrow> chat_end" where
  "and_then (Next st) f = f st"
| "and_then (Hangs st) f = Hangs st"
| "and_then (Use_after_free st) f = Use_after_free st"

definition emits :: "history \<Rightarrow> chat \<Rightarrow> chat" where
  "emits cs st = st\<lparr>chat_calls := chat_calls st @ cs\<rparr>"

definition new_context :: "nat \<Rightarrow> ClientContext \<Rightarrow> chat \<Rightarrow> chat" where
  "new_context p c st = st\<lparr>contexts := (contexts st)(p := Some c)\<rparr>"

definition delete_context :: "nat \<Rightarrow> chat \<Rightarrow> chat" where
  "delete_context p st = st\<lparr>contexts := (contexts st)(p := None)\<rparr>"

section \<open>Operations\<close>

definition broadcastMessage :: "string \<Rightarrow> SOCKET \<Rightarrow> chat \<Rightarrow> chat" where
  "broadcastMessage msg excluded st =
     emits (map (\<lambda>c. Send (ci_socket c) msg)
       (filter (\<lambda>c. ci_socket c \<noteq> excluded \<and> ci_state c = IN_CHAT) (chat_clients st))) st"

text \<open>The client is a reference into the vector: an index.\<close>

definition handleNicknamePhase :: "nat \<Rightarrow> string \<Rightarrow> chat \<Rightarrow> chat" where
  "handleNicknamePhase i nick st =
     (let c = (chat_clients st ! i)\<lparr>nickname := nick, ci_state := IN_CHAT\<rparr>;
          st1 = st\<lparr>chat_clients := (chat_clients st)[i := c]\<rparr>;
          st2 = emits [Cout (''New user: '' @ nick @ newline), Send (ci_socket c) (''Welcome, '' @ nick @ ''!'' @ newline)] st1 in
      broadcastMessage (''User '' @ nick @ '' joined the chat'' @ newline) INVALID_SOCKET st2)"

definition handleChatPhase :: "nat \<Rightarrow> string \<Rightarrow> chat \<Rightarrow> chat" where
  "handleChatPhase i message st =
     (let c = chat_clients st ! i; fullMsg = nickname c @ '': '' @ message @ newline in
      broadcastMessage fullMsg (ci_socket c) (emits [Cout fullMsg] st))"

text \<open>\<open>std::find_if\<close> over the vector; None is the end.\<close>

fun find_index :: "('a \<Rightarrow> bool) \<Rightarrow> 'a list \<Rightarrow> nat option" where
  "find_index P [] = None"
| "find_index P (x # xs) = (if P x then Some 0 else map_option Suc (find_index P xs))"

definition addClient :: "ClientInfo \<Rightarrow> chat \<Rightarrow> chat_end" where
  "addClient c st =
     (if clientsMutex st then Hangs st else Next (st\<lparr>chat_clients := chat_clients st @ [c]\<rparr>))"

definition erase_at :: "nat \<Rightarrow> 'a list \<Rightarrow> 'a list" where
  "erase_at i xs = take i xs @ drop (Suc i) xs"

definition removeClient :: "SOCKET \<Rightarrow> chat \<Rightarrow> chat_end" where
  "removeClient s st =
     (if clientsMutex st then Hangs st
      else case find_index (\<lambda>c. ci_socket c = s) (chat_clients st) of
        None \<Rightarrow> Next st
      | Some i \<Rightarrow>
          let c = chat_clients st ! i;
              st1 = emits [Cout (''User left: '' @ nickname c @ newline)] st;
              st2 = (if ci_state c = IN_CHAT
                     then broadcastMessage (''User '' @ nickname c @ '' left the chat'' @ newline) INVALID_SOCKET st1
                     else st1);
              st3 = delete_context (ci_context c) (emits [Closesocket (ci_socket c)] st2) in
          Next (st3\<lparr>chat_clients := erase_at i (chat_clients st3)\<rparr>))"

definition startAsyncReceive :: "winsock \<Rightarrow> nat \<Rightarrow> chat \<Rightarrow> chat_end" where
  "startAsyncReceive os p st =
     (case contexts st p of
        None \<Rightarrow> Use_after_free st
      | Some c \<Rightarrow>
          let st1 = new_context p (c\<lparr>ctx_operation := Read\<rparr>) st;
              call = WSARecv (ctx_socket c);
              st2 = emits [call] st1 in
          if answer os (chat_calls st1) call \<noteq> SOCKET_ERROR
          then Next (st2\<lparr>receiving := insert p (receiving st2)\<rparr>)
          else
            let st3 = emits [WSAGetLastError] st2 in
            if answer os (chat_calls st2) WSAGetLastError = WSA_IO_PENDING
            then Next (st3\<lparr>receiving := insert p (receiving st3)\<rparr>)
            else removeClient (ctx_socket c) (emits [Cerr (''WSARecv failed'' @ newline)] st3))"

definition handleIOCompletion_chat :: "winsock \<Rightarrow> nat \<Rightarrow> nat \<Rightarrow> chat \<Rightarrow> chat_end" where
  "handleIOCompletion_chat os p bytesTransferred st =
     (case contexts st p of
        None \<Rightarrow> Use_after_free st
      | Some c0 \<Rightarrow>
          let c = terminate_at bytesTransferred c0;
              message = take bytesTransferred (ctx_buffer c);
              st1 = new_context p c st in
          if clientsMutex st1 then Hangs st1
          else
            let st2 = st1\<lparr>clientsMutex := True\<rparr> in
            case find_index (\<lambda>ci. ci_context ci = p) (chat_clients st2) of
              None \<Rightarrow> Next ((delete_context p (emits [Closesocket (ctx_socket c)] st2))\<lparr>clientsMutex := False\<rparr>)
            | Some i \<Rightarrow>
                and_then
                  (startAsyncReceive os p
                    (case ci_state (chat_clients st2 ! i) of
                       AWAITING_NICKNAME \<Rightarrow> handleNicknamePhase i message st2
                     | IN_CHAT \<Rightarrow> handleChatPhase i message st2))
                  (\<lambda>st3. Next (st3\<lparr>clientsMutex := False\<rparr>)))"

text \<open>
  The turn of \<open>workerThread\<close> after a packet for context \<open>p\<close>: the kernel has put \<open>data\<close> in the
  buffer, or the call failed.
\<close>

definition workerTurn :: "winsock \<Rightarrow> nat \<Rightarrow> bool \<Rightarrow> string \<Rightarrow> chat \<Rightarrow> chat_end" where
  "workerTurn os p ok data st =
     (case contexts st p of
        None \<Rightarrow> Use_after_free st
      | Some c \<Rightarrow>
          if \<not> ok \<or> data = [] then removeClient (ctx_socket c) st
          else handleIOCompletion_chat os p (length data) (new_context p (received data c) st))"

text \<open>
  A turn of \<open>acceptConnections\<close>, in the three parts between which others may run: the new
  context up to \<open>addClient\<close>, the prompt, the first receive. The bool says whether there is more
  to do for this socket.
\<close>

definition acceptClient :: "winsock \<Rightarrow> SOCKET \<Rightarrow> nat \<Rightarrow> chat \<Rightarrow> bool \<times> chat_end" where
  "acceptClient os s p st =
     (let st1 = new_context p (newContext s) (emits [Cout (''New connection: '' @ to_string (unat s) @ newline)] st);
          call = Associate s (of_nat p);
          st2 = emits [call] st1 in
      if answer os (chat_calls st1) call = 0
      then (False, Next (emits [Closesocket s] (delete_context p (emits [Cerr (''Failed to associate client'' @ newline)] st2))))
      else (True, addClient \<lparr>ci_socket = s, nickname = [], ci_context = p, ci_state = AWAITING_NICKNAME\<rparr> st2))"

definition PROMPT :: string where "PROMPT = ''Enter your nickname: ''"

definition promptClient :: "SOCKET \<Rightarrow> chat \<Rightarrow> chat" where
  "promptClient s = emits [Send s PROMPT]"

text \<open>The middle of \<open>stopServer\<close>: under the mutex, every client is closed and deleted.\<close>

definition closeClients :: "chat \<Rightarrow> chat_end" where
  "closeClients st =
     (if clientsMutex st then Hangs st
      else Next ((fold (\<lambda>c st. delete_context (ci_context c) (emits [Closesocket (ci_socket c)] st))
                   (chat_clients st) st)\<lparr>chat_clients := []\<rparr>))"

section \<open>Starting\<close>

text \<open>A call that fails is reported; what was opened is closed in the given order.\<close>

definition orClose :: "winsock \<Rightarrow> sys_call \<Rightarrow> (u64 \<Rightarrow> bool) \<Rightarrow> string \<Rightarrow> sys_call list \<Rightarrow> (history, bool) state" where
  "orClose os c failed t closings = do {
     r \<leftarrow> sys_call os c;
     if failed r then do {
       _ \<leftarrow> cerr (t @ newline);
       _ \<leftarrow> State (\<lambda>h. ((), h @ closings));
       State_Monad.return False
     }
     else State_Monad.return True
   }"

text \<open>\<open>startServer\<close> up to the threads: the socket and the port if all went well.\<close>

definition startChat :: "winsock \<Rightarrow> int \<Rightarrow> (history, (SOCKET \<times> u64) option) state" where
  "startChat os port = do {
     r \<leftarrow> sys_call os WSAStartup;
     if r \<noteq> 0 then do {
       _ \<leftarrow> cerr (''WSAStartup failed'' @ newline);
       State_Monad.return None
     }
     else do {
       s \<leftarrow> sys_call os WSASocket;
       if s = INVALID_SOCKET then do {
         _ \<leftarrow> cerr (''Socket creation failed'' @ newline);
         State_Monad.return None
       }
       else do {
         reuse \<leftarrow> orClose os (Setsockopt_reuse s) (\<lambda>r. r = SOCKET_ERROR) ''Setsockopt failed'' [Closesocket s];
         bound \<leftarrow> (if reuse then orClose os (Bind s (word_of_int port)) (\<lambda>r. r = SOCKET_ERROR) ''Bind failed'' [Closesocket s]
                   else State_Monad.return False);
         listening \<leftarrow> (if bound then orClose os (Listen s) (\<lambda>r. r = SOCKET_ERROR) ''Listen failed'' [Closesocket s]
                       else State_Monad.return False);
         if \<not> listening then State_Monad.return None
         else do {
           io \<leftarrow> sys_call os CreateIoCompletionPort;
           if io = 0 then do {
             _ \<leftarrow> cerr (''CreateIoCompletionPort failed'' @ newline);
             _ \<leftarrow> sys_call os (Closesocket s);
             State_Monad.return None
           }
           else do {
             ok \<leftarrow> orClose os (Associate s s) (\<lambda>r. r = 0) ''Failed to associate server socket'' [CloseHandle io, Closesocket s];
             if \<not> ok then State_Monad.return None
             else do {
               _ \<leftarrow> cout (''Chat server started on port '' @ int_to_string port @ newline);
               State_Monad.return (Some (s, io))
             }
           }
         }
       }
     }
   }"

section \<open>The threads\<close>

text \<open>
  Where the accepting thread stands in a turn, and where \<open>stopServer\<close> stands: not begun, flag
  cleared, workers joined, clients closed, returned. \<open>hung\<close> says that a worker waits for ever.
\<close>

datatype accept_pc = Accepting | Prompting SOCKET nat | Posting_receive nat | Accept_hung

datatype chat_stop_pc = Running | Cleared | Workers_joined | Clients_closed | Chat_stopped

record chat_sys =
  chat :: chat
  chat_serverSocket :: SOCKET
  chat_iocp :: u64
  acceptor :: accept_pc
  stopper :: chat_stop_pc
  hung :: bool

text \<open>What a step does to the room, and what a user of it would say happened.\<close>

datatype room_event = Joins SOCKET | Prompts SOCKET | Says SOCKET string | Leaves SOCKET | Closes

definition socket_of :: "chat \<Rightarrow> nat \<Rightarrow> SOCKET" where
  "socket_of st p = (case contexts st p of None \<Rightarrow> INVALID_SOCKET | Some c \<Rightarrow> ctx_socket c)"

text \<open>
  A completed receive is no longer posted. Workers run until they are joined; one that gets a
  packet after the flag was cleared drops it (\<open>worker_quits\<close> below).
\<close>

definition completed :: "nat \<Rightarrow> chat \<Rightarrow> chat" where
  "completed p st = st\<lparr>receiving := receiving st - {p}\<rparr>"

definition worker_can :: "chat_sys \<Rightarrow> nat \<Rightarrow> bool \<Rightarrow> string \<Rightarrow> bool" where
  "worker_can \<sigma> p ok data \<longleftrightarrow>
     p \<in> receiving (chat \<sigma>) \<and> (stopper \<sigma> = Running \<or> stopper \<sigma> = Cleared) \<and> length data \<le> BUFFER_SIZE"

text \<open>The system accepts a socket that is not open already, and \<open>new\<close> gives an address not in use.\<close>

definition accept_can :: "chat_sys \<Rightarrow> SOCKET \<Rightarrow> nat \<Rightarrow> bool" where
  "accept_can \<sigma> s p \<longleftrightarrow>
     acceptor \<sigma> = Accepting \<and> stopper \<sigma> \<noteq> Chat_stopped \<and> s \<noteq> INVALID_SOCKET \<and>
     contexts (chat \<sigma>) p = None \<and> (\<forall>q. socket_of (chat \<sigma>) q \<noteq> s)"

inductive chat_step :: "winsock \<Rightarrow> chat_sys \<Rightarrow> room_event list \<Rightarrow> chat_sys \<Rightarrow> bool" for os where
  worker: "worker_can \<sigma> p ok data \<Longrightarrow> workerTurn os p ok data (completed p (chat \<sigma>)) = Next st \<Longrightarrow>
    chat_step os \<sigma> [if ok \<and> data \<noteq> [] then Says (socket_of (chat \<sigma>) p) data else Leaves (socket_of (chat \<sigma>) p)]
      (\<sigma>\<lparr>chat := st\<rparr>)"
| worker_hangs: "worker_can \<sigma> p ok data \<Longrightarrow> workerTurn os p ok data (completed p (chat \<sigma>)) = Hangs st \<Longrightarrow>
    chat_step os \<sigma> (if clientsMutex (chat \<sigma>) then [] else [Says (socket_of (chat \<sigma>) p) data])
      (\<sigma>\<lparr>chat := st, hung := True\<rparr>)"
| worker_quits: "p \<in> receiving (chat \<sigma>) \<Longrightarrow> stopper \<sigma> = Cleared \<Longrightarrow>
    chat_step os \<sigma> [] (\<sigma>\<lparr>chat := completed p (chat \<sigma>)\<rparr>)"
| accept: "accept_can \<sigma> s p \<Longrightarrow> acceptClient os s p (chat \<sigma>) = (added, Next st) \<Longrightarrow>
    chat_step os \<sigma> (if added then [Joins s] else [])
      (\<sigma>\<lparr>chat := st, acceptor := (if added then Prompting s p else Accepting)\<rparr>)"
| accept_hangs: "accept_can \<sigma> s p \<Longrightarrow> acceptClient os s p (chat \<sigma>) = (added, Hangs st) \<Longrightarrow>
    chat_step os \<sigma> [] (\<sigma>\<lparr>chat := st, acceptor := Accept_hung\<rparr>)"
| prompt: "acceptor \<sigma> = Prompting s p \<Longrightarrow>
    chat_step os \<sigma> [Prompts s] (\<sigma>\<lparr>chat := promptClient s (chat \<sigma>), acceptor := Posting_receive p\<rparr>)"
| post: "acceptor \<sigma> = Posting_receive p \<Longrightarrow> startAsyncReceive os p (chat \<sigma>) = Next st \<Longrightarrow>
    chat_step os \<sigma> (if contexts st p = None then [Leaves (socket_of (chat \<sigma>) p)] else [])
      (\<sigma>\<lparr>chat := st, acceptor := Accepting\<rparr>)"
| post_hangs: "acceptor \<sigma> = Posting_receive p \<Longrightarrow> startAsyncReceive os p (chat \<sigma>) = Hangs st \<Longrightarrow>
    chat_step os \<sigma> [] (\<sigma>\<lparr>chat := st, acceptor := Accept_hung\<rparr>)"
| stop_clear: "stopper \<sigma> = Running \<Longrightarrow> chat_step os \<sigma> [] (\<sigma>\<lparr>stopper := Cleared\<rparr>)"
| stop_join: "stopper \<sigma> = Cleared \<Longrightarrow> \<not> hung \<sigma> \<Longrightarrow> chat_step os \<sigma> [] (\<sigma>\<lparr>stopper := Workers_joined\<rparr>)"
| stop_close: "stopper \<sigma> = Workers_joined \<Longrightarrow> closeClients (chat \<sigma>) = Next st \<Longrightarrow>
    chat_step os \<sigma> [Closes] (\<sigma>\<lparr>chat := st, stopper := Clients_closed\<rparr>)"
| stop_end: "stopper \<sigma> = Clients_closed \<Longrightarrow>
    chat_step os \<sigma> []
      (\<sigma>\<lparr>chat := emits [Closesocket (chat_serverSocket \<sigma>), CloseHandle (chat_iocp \<sigma>), WSACleanup, Cout (''Server stopped'' @ newline)] (chat \<sigma>),
          chat_serverSocket := INVALID_SOCKET, stopper := Chat_stopped\<rparr>)"

text \<open>A thread uses a context that has been deleted.\<close>

inductive chat_fault :: "winsock \<Rightarrow> chat_sys \<Rightarrow> bool" for os where
  worker: "worker_can \<sigma> p ok data \<Longrightarrow> workerTurn os p ok data (completed p (chat \<sigma>)) = Use_after_free st \<Longrightarrow> chat_fault os \<sigma>"
| post: "acceptor \<sigma> = Posting_receive p \<Longrightarrow> startAsyncReceive os p (chat \<sigma>) = Use_after_free st \<Longrightarrow> chat_fault os \<sigma>"

text \<open>\<open>startServer\<close> has just started the threads.\<close>

definition chat_started :: "SOCKET \<Rightarrow> u64 \<Rightarrow> history \<Rightarrow> chat_sys" where
  "chat_started s io h = \<lparr>chat = \<lparr>chat_clients = [], clientsMutex = False, contexts = (\<lambda>_. None), receiving = {}, chat_calls = h\<rparr>,
     chat_serverSocket = s, chat_iocp = io, acceptor = Accepting, stopper = Running, hung = False\<rparr>"

end
