(* ===== verification/Chat_Room.thy ===== *)
theory Chat_Room
  imports Chat_Server Step_Systems
begin

text \<open>
  The room that the chat server promises: who is in it, under which name, and what everybody is
  sent when somebody joins, speaks or leaves. And that the server keeps its clients, contexts
  and receives in order, so that it serves this room.
\<close>

section \<open>The room\<close>

text \<open>Those present, in the order in which they came; without a name they are not heard yet.\<close>

type_synonym room = "(SOCKET \<times> string option) list"

definition members :: "room \<Rightarrow> SOCKET list" where
  "members r = map fst (filter (\<lambda>(s, n). n \<noteq> None) r)"

definition name_of :: "room \<Rightarrow> SOCKET \<Rightarrow> string option" where
  "name_of r s = (case map_of r s of None \<Rightarrow> None | Some n \<Rightarrow> n)"

definition set_name :: "SOCKET \<Rightarrow> string \<Rightarrow> room \<Rightarrow> room" where
  "set_name s nick r = map (\<lambda>(t, n). (t, if t = s then Some nick else n)) r"

definition to_all :: "string \<Rightarrow> SOCKET list \<Rightarrow> (SOCKET \<times> string) list" where
  "to_all m ts = map (\<lambda>t. (t, m)) ts"

fun room_spec :: "room_event \<Rightarrow> room \<Rightarrow> room \<times> (SOCKET \<times> string) list" where
  "room_spec (Joins s) r = (r @ [(s, None)], [])"
| "room_spec (Prompts s) r = (r, [(s, PROMPT)])"
| "room_spec (Says s m) r =
     (case name_of r s of
        None \<Rightarrow> (set_name s m r,
          (s, ''Welcome, '' @ m @ ''!'' @ newline) # to_all (''User '' @ m @ '' joined the chat'' @ newline) (members (set_name s m r)))
      | Some nick \<Rightarrow> (r, to_all (nick @ '': '' @ m @ newline) (filter (\<lambda>t. t \<noteq> s) (members r))))"
| "room_spec (Leaves s) r =
     (filter (\<lambda>(t, n). t \<noteq> s) r,
      case name_of r s of None \<Rightarrow> [] | Some nick \<Rightarrow> to_all (''User '' @ nick @ '' left the chat'' @ newline) (members r))"
| "room_spec Closes r = ([], [])"

definition room_of :: "chat \<Rightarrow> room" where
  "room_of st = map (\<lambda>c. (ci_socket c, if ci_state c = IN_CHAT then Some (nickname c) else None)) (chat_clients st)"

section \<open>Searching and erasing\<close>

lemma find_index_Some: "find_index P xs = Some i \<Longrightarrow> i < length xs \<and> P (xs ! i)"
  by (induction xs arbitrary: i) (auto split: if_splits)

lemma find_index_None: "find_index P xs = None \<longleftrightarrow> (\<forall>x \<in> set xs. \<not> P x)"
  by (induction xs) auto

lemma erase_at_filter:
  "distinct (map f xs) \<Longrightarrow> i < length xs \<Longrightarrow> erase_at i xs = filter (\<lambda>x. f x \<noteq> f (xs ! i)) xs"
proof (induction xs arbitrary: i)
  case (Cons x xs)
  have "f x \<notin> f ` set xs" using Cons.prems(1) by simp
  then have ne: "\<forall>y \<in> set xs. f y \<noteq> f x" by (metis imageI)
  show ?case
  proof (cases i)
    case 0
    then have "filter (\<lambda>y. f y \<noteq> f x) xs = xs" using ne by (simp add: filter_id_conv)
    then show ?thesis using 0 by (simp add: erase_at_def)
  next
    case (Suc j)
    then have "f x \<noteq> f (xs ! j)" using Cons.prems by auto
    then show ?thesis using Suc Cons by (simp add: erase_at_def)
  qed
qed simp

lemma update_at_map:
  "distinct (map f xs) \<Longrightarrow> i < length xs \<Longrightarrow> xs[i := g (xs ! i)] = map (\<lambda>x. if f x = f (xs ! i) then g x else x) xs"
proof (induction xs arbitrary: i)
  case (Cons x xs)
  have "f x \<notin> f ` set xs" using Cons.prems(1) by simp
  then have ne: "\<forall>y \<in> set xs. f y \<noteq> f x" by (metis imageI)
  show ?case
  proof (cases i)
    case 0
    then have "map (\<lambda>y. if f y = f x then g y else y) xs = xs" using ne by (intro map_idI) simp
    then show ?thesis using 0 by simp
  next
    case (Suc j)
    then have "f x \<noteq> f (xs ! j)" using Cons.prems by auto
    then show ?thesis using Suc Cons by simp
  qed
qed simp

lemma distinct_map_filter: "distinct (map f xs) \<Longrightarrow> distinct (map f (filter P xs))"
  by (induction xs) auto

lemma find_index_at:
  "distinct (map f xs) \<Longrightarrow> c \<in> set xs \<Longrightarrow> \<exists>i. find_index (\<lambda>x. f x = f c) xs = Some i \<and> i < length xs \<and> xs ! i = c"
proof -
  assume d: "distinct (map f xs)" and c: "c \<in> set xs"
  then obtain i where i: "find_index (\<lambda>x. f x = f c) xs = Some i"
    using find_index_None [of "\<lambda>x. f x = f c" xs] by (cases "find_index (\<lambda>x. f x = f c) xs") auto
  from find_index_Some [OF this] have "i < length xs" "f (xs ! i) = f c" by auto
  moreover from this d c have "xs ! i = c" by (metis distinct_map inj_onD nth_mem)
  ultimately show ?thesis using i by blast
qed

section \<open>Clients and contexts in order\<close>

text \<open>Sockets and contexts are not shared, and a client's context is allocated and has its socket.\<close>

definition keys :: "chat \<Rightarrow> (SOCKET \<times> nat) list" where
  "keys st = map (\<lambda>c. (ci_socket c, ci_context c)) (chat_clients st)"

definition sockets :: "chat \<Rightarrow> nat \<Rightarrow> SOCKET option" where
  "sockets st p = map_option ctx_socket (contexts st p)"

definition keys_ok :: "(SOCKET \<times> nat) list \<Rightarrow> (nat \<Rightarrow> SOCKET option) \<Rightarrow> bool" where
  "keys_ok ks f \<longleftrightarrow> distinct (map fst ks) \<and> distinct (map snd ks) \<and>
     (\<forall>(s, p) \<in> set ks. s \<noteq> INVALID_SOCKET \<and> f p = Some s)"

definition chat_ok :: "chat \<Rightarrow> bool" where
  "chat_ok st \<longleftrightarrow> keys_ok (keys st) (sockets st)"

lemma chat_ok_clients:
  "chat_ok st \<longleftrightarrow>
     distinct (map ci_socket (chat_clients st)) \<and> distinct (map ci_context (chat_clients st)) \<and>
     (\<forall>c \<in> set (chat_clients st). ci_socket c \<noteq> INVALID_SOCKET \<and>
        (\<exists>x. contexts st (ci_context c) = Some x \<and> ctx_socket x = ci_socket c))"
  by (auto simp: chat_ok_def keys_ok_def keys_def sockets_def comp_def)

lemma emits_simps [simp]:
  "chat_clients (emits cs st) = chat_clients st" "clientsMutex (emits cs st) = clientsMutex st"
  "contexts (emits cs st) = contexts st" "receiving (emits cs st) = receiving st"
  "chat_calls (emits cs st) = chat_calls st @ cs"
  by (simp_all add: emits_def)

lemma context_simps [simp]:
  "chat_clients (new_context p c st) = chat_clients st" "clientsMutex (new_context p c st) = clientsMutex st"
  "contexts (new_context p c st) = (contexts st)(p := Some c)" "receiving (new_context p c st) = receiving st"
  "chat_calls (new_context p c st) = chat_calls st"
  "chat_clients (delete_context p st) = chat_clients st" "clientsMutex (delete_context p st) = clientsMutex st"
  "contexts (delete_context p st) = (contexts st)(p := None)" "receiving (delete_context p st) = receiving st"
  "chat_calls (delete_context p st) = chat_calls st"
  "chat_clients (completed p st) = chat_clients st" "clientsMutex (completed p st) = clientsMutex st"
  "contexts (completed p st) = contexts st" "receiving (completed p st) = receiving st - {p}"
  "chat_calls (completed p st) = chat_calls st"
  by (simp_all add: new_context_def delete_context_def completed_def)

lemma broadcast_simps [simp]:
  "chat_clients (broadcastMessage m s st) = chat_clients st" "clientsMutex (broadcastMessage m s st) = clientsMutex st"
  "contexts (broadcastMessage m s st) = contexts st" "receiving (broadcastMessage m s st) = receiving st"
  by (simp_all add: broadcastMessage_def)

lemma members_room_of: "members (room_of st) = map ci_socket (filter (\<lambda>c. ci_state c = IN_CHAT) (chat_clients st))"
proof -
  have "members (map (\<lambda>c. (ci_socket c, if ci_state c = IN_CHAT then Some (nickname c) else None)) cs) =
      map ci_socket (filter (\<lambda>c. ci_state c = IN_CHAT) cs)" for cs
    by (induction cs) (auto simp: members_def)
  then show ?thesis by (simp add: room_of_def)
qed

text \<open>What a broadcast sends; no client has the invalid socket.\<close>

lemma responses_broadcast:
  "responses (chat_calls (broadcastMessage m s st)) =
    responses (chat_calls st) @ to_all m (filter (\<lambda>t. t \<noteq> s) (members (room_of st)))"
  by (simp add: broadcastMessage_def to_all_def members_room_of comp_def filter_map conj_commute)

lemma responses_broadcast_all:
  "\<forall>c \<in> set (chat_clients st). ci_socket c \<noteq> INVALID_SOCKET \<Longrightarrow>
   responses (chat_calls (broadcastMessage m INVALID_SOCKET st)) = responses (chat_calls st) @ to_all m (members (room_of st))"
proof -
  assume "\<forall>c \<in> set (chat_clients st). ci_socket c \<noteq> INVALID_SOCKET"
  then have "filter (\<lambda>t. t \<noteq> INVALID_SOCKET) (members (room_of st)) = members (room_of st)"
    by (auto simp: members_room_of filter_id_conv)
  then show ?thesis by (simp add: responses_broadcast)
qed

lemma name_of_room:
  assumes "distinct (map ci_socket (chat_clients st))" "c \<in> set (chat_clients st)"
  shows "name_of (room_of st) (ci_socket c) = (if ci_state c = IN_CHAT then Some (nickname c) else None)"
proof -
  have "map_of (room_of st) (ci_socket c) = Some (if ci_state c = IN_CHAT then Some (nickname c) else None)"
    using assms by (intro map_of_is_SomeI) (auto simp: room_of_def comp_def)
  then show ?thesis by (simp add: name_of_def)
qed

text \<open>Everything but the clients' own fields and the calls.\<close>

definition same_frame :: "chat \<Rightarrow> chat \<Rightarrow> bool" where
  "same_frame st st' \<longleftrightarrow>
     keys st' = keys st \<and> contexts st' = contexts st \<and> receiving st' = receiving st \<and> clientsMutex st' = clientsMutex st"

definition heard_from :: "nat \<Rightarrow> string \<Rightarrow> chat \<Rightarrow> chat" where
  "heard_from i m st =
     (case ci_state (chat_clients st ! i) of
        AWAITING_NICKNAME \<Rightarrow> handleNicknamePhase i m st
      | IN_CHAT \<Rightarrow> handleChatPhase i m st)"

lemma heard_from:
  assumes ok: "chat_ok st" and i: "i < length (chat_clients st)"
  defines "s \<equiv> ci_socket (chat_clients st ! i)"
  shows "same_frame st (heard_from i m st)"
    and "\<exists>xs. room_spec (Says s m) (room_of st) = (room_of (heard_from i m st), xs) \<and>
      responses (chat_calls (heard_from i m st)) = responses (chat_calls st) @ xs"
proof -
  let ?c = "chat_clients st ! i"
  have d: "distinct (map ci_socket (chat_clients st))" and c: "?c \<in> set (chat_clients st)"
    using ok i by (auto simp: chat_ok_clients)
  have valid: "\<forall>c \<in> set (chat_clients st). ci_socket c \<noteq> INVALID_SOCKET" using ok by (simp add: chat_ok_clients)
  note name = name_of_room [OF d c, folded s_def]
  have "same_frame st (heard_from i m st) \<and> (\<exists>xs. room_spec (Says s m) (room_of st) = (room_of (heard_from i m st), xs) \<and>
      responses (chat_calls (heard_from i m st)) = responses (chat_calls st) @ xs)"
  proof (cases "ci_state ?c")
    case IN_CHAT
    then have h: "heard_from i m st = broadcastMessage (nickname ?c @ '': '' @ m @ newline) s (emits [Cout (nickname ?c @ '': '' @ m @ newline)] st)"
      by (simp add: heard_from_def handleChatPhase_def s_def Let_def)
    have "room_of (heard_from i m st) = room_of st" by (simp add: h room_of_def)
    moreover have "room_of (emits cs st) = room_of st" for cs by (simp add: room_of_def)
    ultimately show ?thesis using name IN_CHAT by (simp add: h responses_broadcast same_frame_def keys_def)
  next
    case AWAITING_NICKNAME
    let ?u = "\<lambda>d. d\<lparr>nickname := m, ci_state := IN_CHAT\<rparr>"
    let ?st1 = "st\<lparr>chat_clients := (chat_clients st)[i := ?u ?c]\<rparr>"
    have upd: "(chat_clients st)[i := ?u ?c] = map (\<lambda>d. if ci_socket d = s then ?u d else d) (chat_clients st)"
      unfolding s_def by (rule update_at_map [OF d i])
    have h: "heard_from i m st = broadcastMessage (''User '' @ m @ '' joined the chat'' @ newline) INVALID_SOCKET
        (emits [Cout (''New user: '' @ m @ newline), Send s (''Welcome, '' @ m @ ''!'' @ newline)] ?st1)"
      using AWAITING_NICKNAME by (simp add: heard_from_def handleNicknamePhase_def s_def Let_def)
    have room: "room_of (emits cs ?st1) = set_name s m (room_of st)" for cs
      by (auto simp: room_of_def upd set_name_def comp_def)
    have "\<forall>c \<in> set (chat_clients (emits cs ?st1)). ci_socket c \<noteq> INVALID_SOCKET" for cs
      using valid by (auto simp: upd)
    note sent = responses_broadcast_all [OF this, unfolded room]
    have "room_of (heard_from i m st) = set_name s m (room_of st)"
      unfolding h using room by (simp add: room_of_def)
    moreover have "keys ?st1 = keys st" by (simp add: upd keys_def comp_def)
    ultimately show ?thesis
      using name AWAITING_NICKNAME by (simp add: h sent same_frame_def keys_def)
  qed
  then show "same_frame st (heard_from i m st)"
    and "\<exists>xs. room_spec (Says s m) (room_of st) = (room_of (heard_from i m st), xs) \<and>
      responses (chat_calls (heard_from i m st)) = responses (chat_calls st) @ xs" by blast+
qed

section \<open>What the operations keep\<close>

text \<open>The same clients with the same sockets; the contexts may have other contents.\<close>

definition alike :: "chat \<Rightarrow> chat \<Rightarrow> bool" where
  "alike st st' \<longleftrightarrow> keys st' = keys st \<and> sockets st' = sockets st"

lemma alike_refl [simp]: "alike st st" and alike_trans: "alike st st1 \<Longrightarrow> alike st1 st2 \<Longrightarrow> alike st st2"
  by (simp_all add: alike_def)

lemma alike_ok: "alike st st' \<Longrightarrow> chat_ok st' \<longleftrightarrow> chat_ok st"
  by (simp add: alike_def chat_ok_def)

lemma alike_new_context: "contexts st p = Some x \<Longrightarrow> ctx_socket y = ctx_socket x \<Longrightarrow> alike st (new_context p y st)"
  by (auto simp: alike_def keys_def sockets_def)

lemma alike_emits: "alike st (emits cs st)"
  by (simp add: alike_def keys_def sockets_def fun_eq_iff)

lemma alike_fields [simp]:
  "alike st (st'\<lparr>clientsMutex := b\<rparr>) \<longleftrightarrow> alike st st'" "alike st (st'\<lparr>receiving := R\<rparr>) \<longleftrightarrow> alike st st'"
  by (simp_all add: alike_def keys_def sockets_def fun_eq_iff)

lemma same_frame_alike: "same_frame st st' \<Longrightarrow> alike st st'"
  by (simp add: same_frame_def alike_def sockets_def fun_eq_iff)

lemma room_of_simps [simp]:
  "room_of (emits cs st) = room_of st" "room_of (new_context p c st) = room_of st"
  "room_of (delete_context p st) = room_of st" "room_of (completed p st) = room_of st"
  "room_of (st\<lparr>clientsMutex := b\<rparr>) = room_of st" "room_of (st\<lparr>receiving := R\<rparr>) = room_of st"
  by (simp_all add: room_of_def)

text \<open>A client is gone, with its context.\<close>

definition gone :: "SOCKET \<Rightarrow> nat \<Rightarrow> chat \<Rightarrow> chat \<Rightarrow> bool" where
  "gone s p st st' \<longleftrightarrow>
     keys st' = filter (\<lambda>k. fst k \<noteq> s) (keys st) \<and> sockets st' = (sockets st)(p := None) \<and>
     receiving st' = receiving st \<and> clientsMutex st' = clientsMutex st"

lemma keys_unique:
  assumes ok: "keys_ok ks f" and p: "(s, p) \<in> set ks" and p': "(s', p') \<in> set ks"
  shows "s = s' \<longleftrightarrow> p = p'"
proof
  have d: "distinct (map fst ks)" using ok by (simp add: keys_ok_def)
  show "p = p'" if "s = s'" using eq_key_imp_eq_value [OF d] p p' that by metis
  have "f p = Some s" "f p' = Some s'" using ok p p' by (auto simp: keys_ok_def)
  then show "s = s'" if "p = p'" using that by simp
qed

lemma gone_ok:
  assumes "chat_ok st" "(s, p) \<in> set (keys st)" "gone s p st st'"
  shows "chat_ok st' \<and> snd ` set (keys st') = snd ` set (keys st) - {p}"
proof
  have u: "fst k \<noteq> s \<longleftrightarrow> snd k \<noteq> p" if "k \<in> set (keys st)" for k
    using keys_unique [of "keys st" "sockets st" "fst k" "snd k" s p] assms(1,2) that by (simp add: chat_ok_def)
  show "chat_ok st'"
    using assms(1,3) u by (auto simp: chat_ok_def gone_def keys_ok_def distinct_map_filter)
  show "snd ` set (keys st') = snd ` set (keys st) - {p}"
    using assms(3) u by (force simp: gone_def)
qed

lemma removeClient_gone:
  assumes ok: "chat_ok st" and key: "(s, p) \<in> set (keys st)" and free: "\<not> clientsMutex st"
  shows "\<exists>st'. removeClient s st = Next st' \<and> gone s p st st' \<and>
    (\<exists>xs. room_spec (Leaves s) (room_of st) = (room_of st', xs) \<and> responses (chat_calls st') = responses (chat_calls st) @ xs)"
proof -
  obtain c where c: "c \<in> set (chat_clients st)" "ci_socket c = s" "ci_context c = p" using key by (auto simp: keys_def)
  have d: "distinct (map ci_socket (chat_clients st))" using ok by (simp add: chat_ok_clients)
  have valid: "\<forall>c \<in> set (chat_clients st). ci_socket c \<noteq> INVALID_SOCKET" using ok by (simp add: chat_ok_clients)
  obtain i where i: "find_index (\<lambda>x. ci_socket x = s) (chat_clients st) = Some i" "i < length (chat_clients st)" "chat_clients st ! i = c"
    using find_index_at [OF d c(1)] c(2) by auto
  have erase: "erase_at i (chat_clients st) = filter (\<lambda>x. ci_socket x \<noteq> s) (chat_clients st)"
    using erase_at_filter [OF d i(2)] i(3) c(2) by simp
  let ?t1 = "emits [Cout (''User left: '' @ nickname c @ newline)] st"
  let ?t2 = "if ci_state c = IN_CHAT then broadcastMessage (''User '' @ nickname c @ '' left the chat'' @ newline) INVALID_SOCKET ?t1 else ?t1"
  let ?t3 = "delete_context p (emits [Closesocket s] ?t2)"
  let ?st' = "?t3\<lparr>chat_clients := filter (\<lambda>x. ci_socket x \<noteq> s) (chat_clients st)\<rparr>"
  have r: "removeClient s st = Next ?st'"
    using free i c erase by (simp add: removeClient_def Let_def)
  have g: "gone s p st ?st'"
    by (auto simp: gone_def keys_def sockets_def filter_map comp_def)
  have left: "room_of ?st' = filter (\<lambda>(t, n). t \<noteq> s) (room_of st)"
    by (simp add: room_of_def filter_map comp_def)
  have "responses (chat_calls ?t2) = responses (chat_calls st) @ snd (room_spec (Leaves s) (room_of st))"
    using responses_broadcast_all [of ?t1] valid name_of_room [OF d c(1)] c(2) by simp
  then have "responses (chat_calls ?st') = responses (chat_calls st) @ snd (room_spec (Leaves s) (room_of st))" by simp
  with r g left show ?thesis by (intro exI [of _ ?st']) simp
qed

end
