(* ===== verification/Chat_Thms.thy ===== *)
theory Chat_Thms
  imports Chat_Room
begin

text \<open>
  The chat server on every interleaving: what a turn of each thread does to the room, the
  invariant of the contexts, and the room as an abstraction of the server.
\<close>

section \<open>A receive\<close>

lemma startAsyncReceive_cases:
  assumes "contexts st p = Some x"
  obtains (posted) cs y where "startAsyncReceive os p st = Next ((emits cs (new_context p y st))\<lparr>receiving := insert p (receiving st)\<rparr>)"
      "responses cs = []" "ctx_socket y = ctx_socket x"
  | (failed) cs y where "startAsyncReceive os p st = removeClient (ctx_socket x) (emits cs (new_context p y st))"
      "responses cs = []" "ctx_socket y = ctx_socket x"
proof -
  let ?y = "x\<lparr>ctx_operation := Read\<rparr>" and ?r = "WSARecv (ctx_socket x)"
  consider "answer os (chat_calls st) ?r \<noteq> SOCKET_ERROR"
    | "answer os (chat_calls st) ?r = SOCKET_ERROR" "answer os (chat_calls st @ [?r]) WSAGetLastError = WSA_IO_PENDING"
    | "answer os (chat_calls st) ?r = SOCKET_ERROR" "answer os (chat_calls st @ [?r]) WSAGetLastError \<noteq> WSA_IO_PENDING"
    by blast
  then show ?thesis
  proof cases
    case 1
    then show ?thesis using posted [of "[?r]" ?y] assms by (simp add: startAsyncReceive_def Let_def)
  next
    case 2
    then show ?thesis using posted [of "[?r, WSAGetLastError]" ?y] assms
      by (simp add: startAsyncReceive_def Let_def emits_def)
  next
    case 3
    then show ?thesis using failed [of "[?r, WSAGetLastError, Cerr (''WSARecv failed'' @ newline)]" ?y] assms
      by (simp add: startAsyncReceive_def Let_def emits_def)
  qed
qed

text \<open>A key of the list is an allocated context with its socket.\<close>

lemma key_context:
  assumes "chat_ok st" "(s, p) \<in> set (keys st)"
  obtains x where "contexts st p = Some x" "ctx_socket x = s" "socket_of st p = s" "s \<noteq> INVALID_SOCKET"
  using assms by (auto simp: chat_ok_def keys_ok_def sockets_def socket_of_def)

section \<open>A turn of a worker\<close>

text \<open>What a turn does: nothing but waiting, removing the client, or hearing it and posting again.\<close>

lemma workerTurn_blocked:
  assumes ok: "chat_ok st" and key: "(s, p) \<in> set (keys st)" and "clientsMutex st"
  shows "\<exists>st'. workerTurn os p b data st = Hangs st' \<and> alike st st' \<and> room_of st' = room_of st \<and>
    receiving st' = receiving st \<and> clientsMutex st' \<and> chat_calls st' = chat_calls st"
proof -
  obtain x where x: "contexts st p = Some x" by (rule key_context [OF ok key])
  show ?thesis
  proof (cases "\<not> b \<or> data = []")
    case True
    then show ?thesis using assms(3) x by (simp add: workerTurn_def removeClient_def)
  next
    case False
    let ?y = "terminate_at (length data) (received data x)"
    let ?st' = "new_context p ?y (new_context p (received data x) st)"
    have "workerTurn os p b data st = Hangs ?st'"
      using False assms(3) x by (simp add: workerTurn_def handleIOCompletion_chat_def Let_def)
    moreover have "alike st ?st'"
      using alike_trans [OF alike_new_context [OF x] alike_new_context] by simp
    ultimately show ?thesis using assms(3) by (intro exI [of _ ?st']) simp
  qed
qed

lemma workerTurn_leaves:
  assumes ok: "chat_ok st" and key: "(s, p) \<in> set (keys st)" and "\<not> clientsMutex st" and "\<not> b \<or> data = []"
  shows "\<exists>st'. workerTurn os p b data st = Next st' \<and> gone s p st st' \<and>
    (\<exists>xs. room_spec (Leaves s) (room_of st) = (room_of st', xs) \<and> responses (chat_calls st') = responses (chat_calls st) @ xs)"
proof -
  obtain x where "contexts st p = Some x" "ctx_socket x = s" by (rule key_context [OF ok key])
  then have "workerTurn os p b data st = removeClient s st" using assms(4) by (simp add: workerTurn_def)
  with removeClient_gone [OF ok key assms(3)] show ?thesis by simp
qed

lemma workerTurn_says:
  assumes ok: "chat_ok st" and key: "(s, p) \<in> set (keys st)" and "\<not> clientsMutex st" and "b" "data \<noteq> []"
  shows "\<exists>st'. (workerTurn os p b data st = Next st' \<and> \<not> clientsMutex st' \<and> receiving st' = insert p (receiving st) \<or>
      workerTurn os p b data st = Hangs st' \<and> clientsMutex st' \<and> receiving st' = receiving st) \<and>
    alike st st' \<and>
    (\<exists>xs. room_spec (Says s data) (room_of st) = (room_of st', xs) \<and> responses (chat_calls st') = responses (chat_calls st) @ xs)"
proof -
  obtain x where x: "contexts st p = Some x" "ctx_socket x = s" by (rule key_context [OF ok key])
  let ?y = "terminate_at (length data) (received data x)"
  let ?st1 = "new_context p ?y (new_context p (received data x) st)"
  let ?st2 = "?st1\<lparr>clientsMutex := True\<rparr>"
  have alike1: "alike st ?st1"
    using alike_trans [OF alike_new_context [OF x(1)] alike_new_context] by simp
  then have alike2: "alike st ?st2" by (simp only: alike_fields)
  then have ok2: "chat_ok ?st2" using ok by (simp only: alike_ok)
  obtain c where c: "c \<in> set (chat_clients ?st2)" "ci_socket c = s" "ci_context c = p" using key by (auto simp: keys_def)
  have "distinct (map ci_context (chat_clients ?st2))" using ok2 by (simp only: chat_ok_clients)
  from find_index_at [OF this c(1)] obtain i where i: "find_index (\<lambda>d. ci_context d = p) (chat_clients ?st2) = Some i"
      "i < length (chat_clients ?st2)" "chat_clients ?st2 ! i = c" using c(3) by auto
  have "workerTurn os p b data st = and_then (startAsyncReceive os p (heard_from i data ?st2)) (\<lambda>st3. Next (st3\<lparr>clientsMutex := False\<rparr>))"
    using assms(3-5) x i by (simp add: workerTurn_def handleIOCompletion_chat_def Let_def take_terminated heard_from_def
        split: ClientState.split)
  note turn = this
  let ?h = "heard_from i data ?st2"
  have frame: "same_frame ?st2 ?h" by (rule heard_from(1) [OF ok2 i(2)])
  obtain xs where says: "room_spec (Says s data) (room_of ?st2) = (room_of ?h, xs)"
      "responses (chat_calls ?h) = responses (chat_calls ?st2) @ xs"
    using heard_from(2) [OF ok2 i(2), of data] c(2) i(3) by auto
  have h: "contexts ?h p = Some ?y" "clientsMutex ?h" "receiving ?h = receiving st"
    using frame by (simp_all add: same_frame_def)
  have alikeh: "alike st ?h" by (rule alike_trans [OF alike2 same_frame_alike [OF frame]])
  from h(1) show ?thesis
  proof (cases rule: startAsyncReceive_cases [where os = os])
    case (posted cs z)
    let ?st' = "((emits cs (new_context p z ?h))\<lparr>receiving := insert p (receiving ?h)\<rparr>)\<lparr>clientsMutex := False\<rparr>"
    have "alike ?h ?st'"
      unfolding alike_fields by (rule alike_trans [OF alike_new_context [OF h(1) posted(3)] alike_emits])
    then have "alike st ?st'" by (rule alike_trans [OF alikeh])
    then show ?thesis using turn posted h says by (intro exI [of _ ?st']) simp
  next
    case (failed cs z)
    let ?st' = "emits cs (new_context p z ?h)"
    have "alike ?h ?st'" by (rule alike_trans [OF alike_new_context [OF h(1) failed(3)] alike_emits])
    then have "alike st ?st'" by (rule alike_trans [OF alikeh])
    then show ?thesis using turn failed h says by (intro exI [of _ ?st']) (simp add: removeClient_def)
  qed
qed

text \<open>The receive after a message cannot be posted: the worker waits for the mutex it holds.\<close>

lemma heard_from_calls:
  assumes "chat_clients st' = chat_clients st" "chat_calls st' = chat_calls st"
  shows "chat_calls (heard_from i m st') = chat_calls (heard_from i m st)"
  using assms by (simp add: heard_from_def handleNicknamePhase_def handleChatPhase_def broadcastMessage_def Let_def emits_def split: ClientState.split)

lemma workerTurn_self_locks:
  assumes ok: "chat_ok st" and key: "(s, p) \<in> set (keys st)" and "\<not> clientsMutex st" and "data \<noteq> []"
    and i: "find_index (\<lambda>d. ci_context d = p) (chat_clients st) = Some i"
    and h1: "h1 = chat_calls (heard_from i data st)"
    and fails: "answer os h1 (WSARecv s) = SOCKET_ERROR" "answer os (h1 @ [WSARecv s]) WSAGetLastError \<noteq> WSA_IO_PENDING"
  shows "\<exists>st'. workerTurn os p True data st = Hangs st'"
proof -
  obtain x where x: "contexts st p = Some x" "ctx_socket x = s" by (rule key_context [OF ok key])
  let ?y = "terminate_at (length data) (received data x)"
  let ?st1 = "new_context p ?y (new_context p (received data x) st)"
  let ?st2 = "?st1\<lparr>clientsMutex := True\<rparr>"
  let ?h = "heard_from i data ?st2"
  have "alike st ?st1" using alike_trans [OF alike_new_context [OF x(1)] alike_new_context] by simp
  then have "alike st ?st2" by (simp only: alike_fields)
  then have ok2: "chat_ok ?st2" using ok by (simp only: alike_ok)
  have "same_frame ?st2 ?h" by (rule heard_from(1) [OF ok2]) (use find_index_Some [OF i] in simp)
  then have h: "contexts ?h p = Some ?y" "clientsMutex ?h" by (simp_all add: same_frame_def)
  have calls: "chat_calls ?h = h1" unfolding h1 by (rule heard_from_calls) simp_all
  have "workerTurn os p True data st = and_then (startAsyncReceive os p ?h) (\<lambda>st3. Next (st3\<lparr>clientsMutex := False\<rparr>))"
    using assms(3,4) x i by (simp add: workerTurn_def handleIOCompletion_chat_def Let_def take_terminated heard_from_def
        split: ClientState.split)
  moreover have "\<exists>st'. startAsyncReceive os p ?h = Hangs st'"
    using h fails x(2) calls by (simp add: startAsyncReceive_def Let_def removeClient_def)
  ultimately show ?thesis by auto
qed

lemma workerTurn_safe:
  assumes "chat_ok st" "(s, p) \<in> set (keys st)"
  shows "workerTurn os p b data st \<noteq> Use_after_free st'"
proof (cases "clientsMutex st")
  case True
  then show ?thesis using workerTurn_blocked [OF assms True, of os b data] by auto
next
  case False
  show ?thesis
  proof (cases "b \<and> data \<noteq> []")
    case True
    then have "b" "data \<noteq> []" by auto
    from workerTurn_says [OF assms False this, of os] \<open>b\<close> show ?thesis by force
  next
    case False
    then show ?thesis using workerTurn_leaves [OF assms \<open>\<not> clientsMutex st\<close>, of b data os] by auto
  qed
qed

section \<open>The invariant\<close>

fun held :: "accept_pc \<Rightarrow> nat set" where
  "held (Prompting s p) = {p}"
| "held (Posting_receive p) = {p}"
| "held _ = {}"

definition ctxs :: "chat \<Rightarrow> nat set" where
  "ctxs st = snd ` set (keys st)"

definition serving :: "chat_sys \<Rightarrow> bool" where
  "serving \<sigma> \<longleftrightarrow> stopper \<sigma> = Running \<or> stopper \<sigma> = Cleared"

text \<open>
  Clients are in order; the mutex is taken between steps exactly when a worker waits for ever,
  and then the workers cannot be joined; the contexts allocated are those of the clients; until
  the clients are closed a posted receive and the accepting thread use contexts of clients, and
  different ones; and while the server runs every context is in one of these hands.
\<close>

definition chat_inv :: "chat_sys \<Rightarrow> bool" where
  "chat_inv \<sigma> \<longleftrightarrow>
     chat_ok (chat \<sigma>) \<and>
     (clientsMutex (chat \<sigma>) \<longleftrightarrow> hung \<sigma>) \<and>
     (hung \<sigma> \<longrightarrow> serving \<sigma>) \<and>
     (acceptor \<sigma> = Accept_hung \<longrightarrow> hung \<sigma>) \<and>
     (\<not> hung \<sigma> \<longrightarrow> dom (sockets (chat \<sigma>)) = ctxs (chat \<sigma>)) \<and>
     (serving \<sigma> \<or> stopper \<sigma> = Workers_joined \<longrightarrow>
        receiving (chat \<sigma>) \<union> held (acceptor \<sigma>) \<subseteq> ctxs (chat \<sigma>) \<and>
        receiving (chat \<sigma>) \<inter> held (acceptor \<sigma>) = {} \<and>
        (\<not> hung \<sigma> \<and> stopper \<sigma> = Running \<longrightarrow> ctxs (chat \<sigma>) \<subseteq> receiving (chat \<sigma>) \<union> held (acceptor \<sigma>)))"

definition delivers :: "chat_sys \<Rightarrow> room_event list \<Rightarrow> chat_sys \<Rightarrow> bool" where
  "delivers \<sigma> es \<tau> \<longleftrightarrow>
     (\<exists>xs. machine_run room_spec es (room_of (chat \<sigma>)) = (room_of (chat \<tau>), xs) \<and>
        responses (chat_calls (chat \<tau>)) = responses (chat_calls (chat \<sigma>)) @ xs)"

lemma delivers_none:
  "room_of (chat \<tau>) = room_of (chat \<sigma>) \<Longrightarrow> responses (chat_calls (chat \<tau>)) = responses (chat_calls (chat \<sigma>)) \<Longrightarrow>
   delivers \<sigma> [] \<tau>"
  by (simp add: delivers_def)

lemma delivers_one:
  "room_spec e (room_of (chat \<sigma>)) = (room_of (chat \<tau>), xs) \<Longrightarrow>
   responses (chat_calls (chat \<tau>)) = responses (chat_calls (chat \<sigma>)) @ xs \<Longrightarrow> delivers \<sigma> [e] \<tau>"
  by (simp add: delivers_def)

lemma alike_ctxs: "alike st st' \<Longrightarrow> ctxs st' = ctxs st \<and> dom (sockets st') = dom (sockets st) \<and> chat_ok st' = chat_ok st"
  by (simp add: alike_def ctxs_def chat_ok_def)

lemma gone_ctxs:
  assumes "chat_ok st" "(s, p) \<in> set (keys st)" "gone s p st st'"
  shows "chat_ok st' \<and> ctxs st' = ctxs st - {p} \<and> dom (sockets st') = dom (sockets st) - {p}"
  using gone_ok [OF assms] assms(3) by (simp add: ctxs_def gone_def)

lemma completed_keys [simp]: "keys (completed p st) = keys st" "sockets (completed p st) = sockets st"
  by (simp_all add: keys_def sockets_def fun_eq_iff)

lemma completed_ok [simp]: "alike st (completed p st)" "chat_ok (completed p st) = chat_ok st"
  "ctxs (completed p st) = ctxs st"
  by (simp_all add: alike_def chat_ok_def ctxs_def)

text \<open>A posted receive belongs to a client.\<close>

lemma worker_key:
  assumes "chat_inv \<sigma>" "worker_can \<sigma> p ok data"
  obtains s where "(s, p) \<in> set (keys (chat \<sigma>))" "socket_of (chat \<sigma>) p = s"
proof -
  have "p \<in> ctxs (chat \<sigma>)" using assms by (auto simp: chat_inv_def worker_can_def serving_def)
  then obtain s where key: "(s, p) \<in> set (keys (chat \<sigma>))" by (auto simp: ctxs_def)
  have "chat_ok (chat \<sigma>)" using assms(1) by (simp add: chat_inv_def)
  then have "socket_of (chat \<sigma>) p = s" by (rule key_context [OF _ key])
  with key show ?thesis by (rule that)
qed

lemma chat_worker_step:
  assumes inv: "chat_inv \<sigma>" and can: "worker_can \<sigma> p ok data"
    and turn: "workerTurn os p ok data (completed p (chat \<sigma>)) = Next st"
  shows "chat_inv (\<sigma>\<lparr>chat := st\<rparr>) \<and>
    delivers \<sigma> [if ok \<and> data \<noteq> [] then Says (socket_of (chat \<sigma>) p) data else Leaves (socket_of (chat \<sigma>) p)] (\<sigma>\<lparr>chat := st\<rparr>)"
proof -
  obtain s where s: "(s, p) \<in> set (keys (chat \<sigma>))" "socket_of (chat \<sigma>) p = s" by (rule worker_key [OF inv can])
  let ?st0 = "completed p (chat \<sigma>)"
  have ok0: "chat_ok ?st0" and key0: "(s, p) \<in> set (keys ?st0)" using inv s by (simp_all add: chat_inv_def)
  have p: "p \<in> receiving (chat \<sigma>)" "serving \<sigma>" using can by (auto simp: worker_can_def serving_def)
  have free: "\<not> clientsMutex ?st0"
    using workerTurn_blocked [OF ok0 key0, of os ok data] turn by auto
  then have live: "\<not> hung \<sigma>" using inv by (simp add: chat_inv_def)
  show ?thesis
  proof (cases "ok \<and> data \<noteq> []")
    case True
    then obtain xs where st: "\<not> clientsMutex st" "receiving st = insert p (receiving ?st0)" "alike ?st0 st"
      and xs: "room_spec (Says s data) (room_of (chat \<sigma>)) = (room_of st, xs)"
        "responses (chat_calls st) = responses (chat_calls (chat \<sigma>)) @ xs"
      using workerTurn_says [OF ok0 key0 free, of ok data os] turn by auto
    have "receiving st = receiving (chat \<sigma>)" using st(2) p by auto
    then have "chat_inv (\<sigma>\<lparr>chat := st\<rparr>)"
      using inv live st(1) alike_ctxs [OF st(3)] by (simp add: chat_inv_def serving_def)
    then show ?thesis using True s xs by (simp add: delivers_one)
  next
    case False
    then obtain xs where st: "gone s p ?st0 st"
      and xs: "room_spec (Leaves s) (room_of (chat \<sigma>)) = (room_of st, xs)"
        "responses (chat_calls st) = responses (chat_calls (chat \<sigma>)) @ xs"
      using workerTurn_leaves [OF ok0 key0 free, of ok data os] turn by auto
    have "receiving st = receiving (chat \<sigma>) - {p}" "\<not> clientsMutex st"
      using st free by (simp_all add: gone_def)
    moreover have "p \<notin> held (acceptor \<sigma>)" using inv p by (auto simp: chat_inv_def)
    ultimately have "chat_inv (\<sigma>\<lparr>chat := st\<rparr>)"
      using inv live gone_ctxs [OF ok0 key0 st] p by (auto simp: chat_inv_def serving_def)
    moreover have "delivers \<sigma> [Leaves s] (\<sigma>\<lparr>chat := st\<rparr>)" using xs by (intro delivers_one) simp_all
    ultimately show ?thesis using False s by auto
  qed
qed

lemma worker_hangs_step:
  assumes inv: "chat_inv \<sigma>" and can: "worker_can \<sigma> p ok data"
    and turn: "workerTurn os p ok data (completed p (chat \<sigma>)) = Hangs st"
  shows "chat_inv (\<sigma>\<lparr>chat := st, hung := True\<rparr>) \<and>
    delivers \<sigma> (if clientsMutex (chat \<sigma>) then [] else [Says (socket_of (chat \<sigma>) p) data]) (\<sigma>\<lparr>chat := st, hung := True\<rparr>)"
proof -
  obtain s where s: "(s, p) \<in> set (keys (chat \<sigma>))" "socket_of (chat \<sigma>) p = s" by (rule worker_key [OF inv can])
  let ?st0 = "completed p (chat \<sigma>)"
  have ok0: "chat_ok ?st0" and key0: "(s, p) \<in> set (keys ?st0)" using inv s by (simp_all add: chat_inv_def)
  have p: "p \<in> receiving (chat \<sigma>)" "serving \<sigma>" using can by (auto simp: worker_can_def serving_def)
  show ?thesis
  proof (cases "clientsMutex (chat \<sigma>)")
    case True
    then have st: "alike ?st0 st" "room_of st = room_of (chat \<sigma>)" "receiving st = receiving ?st0" "clientsMutex st"
        "chat_calls st = chat_calls (chat \<sigma>)"
      using workerTurn_blocked [OF ok0 key0, of os ok data] turn by auto
    have "chat_inv (\<sigma>\<lparr>chat := st, hung := True\<rparr>)"
      using inv p st(3,4) alike_ctxs [OF st(1)] by (auto simp: chat_inv_def serving_def)
    then show ?thesis using True st by (simp add: delivers_none)
  next
    case False
    then have free: "\<not> clientsMutex ?st0" by simp
    have says: "ok \<and> data \<noteq> []"
      using workerTurn_leaves [OF ok0 key0 free, of ok data os] turn by auto
    then obtain xs where st: "clientsMutex st" "receiving st = receiving ?st0" "alike ?st0 st"
      and xs: "room_spec (Says s data) (room_of (chat \<sigma>)) = (room_of st, xs)"
        "responses (chat_calls st) = responses (chat_calls (chat \<sigma>)) @ xs"
      using workerTurn_says [OF ok0 key0 free, of ok data os] turn by auto
    have "chat_inv (\<sigma>\<lparr>chat := st, hung := True\<rparr>)"
      using inv p st(1,2) alike_ctxs [OF st(3)] by (auto simp: chat_inv_def serving_def)
    then show ?thesis using False s xs by (simp add: delivers_one)
  qed
qed

text \<open>Accepting: the address is new, and so is the socket.\<close>

lemma accept_step:
  assumes inv: "chat_inv \<sigma>" and can: "accept_can \<sigma> s p"
    and turn: "acceptClient os s p (chat \<sigma>) = (added, Next st)"
  shows "chat_inv (\<sigma>\<lparr>chat := st, acceptor := (if added then Prompting s p else Accepting)\<rparr>) \<and>
    delivers \<sigma> (if added then [Joins s] else []) (\<sigma>\<lparr>chat := st, acceptor := (if added then Prompting s p else Accepting)\<rparr>)"
proof -
  let ?st = "chat \<sigma>"
  have can: "acceptor \<sigma> = Accepting" "s \<noteq> INVALID_SOCKET" "sockets ?st p = None" "\<forall>q. sockets ?st q \<noteq> Some s"
    using can by (auto simp: accept_can_def sockets_def socket_of_def split: option.splits)
  have p: "p \<notin> ctxs ?st" "s \<notin> fst ` set (keys ?st)" and ok: "chat_ok ?st"
    using inv can(3,4) by (auto simp: chat_inv_def chat_ok_def keys_ok_def ctxs_def)
  show ?thesis
  proof (cases added)
    case False
    then obtain cs where st: "st = emits cs (delete_context p (new_context p (newContext s) ?st))" "responses cs = []"
      using turn by (auto simp: acceptClient_def Let_def emits_def delete_context_def new_context_def split: if_splits)
    have "alike ?st st"
      using can(3) by (auto simp: st(1) alike_def keys_def sockets_def fun_eq_iff)
    then have "chat_inv (\<sigma>\<lparr>chat := st, acceptor := Accepting\<rparr>)"
      using inv can(1) alike_ctxs [OF \<open>alike ?st st\<close>] by (simp add: chat_inv_def serving_def st(1))
    then show ?thesis using False st by (simp add: delivers_none)
  next
    case True
    let ?c = "\<lparr>ci_socket = s, nickname = [], ci_context = p, ci_state = AWAITING_NICKNAME\<rparr>"
    obtain cs where st: "st = (emits cs (new_context p (newContext s) ?st))\<lparr>chat_clients := chat_clients ?st @ [?c]\<rparr>"
      and quiet: "responses cs = []" and free: "\<not> clientsMutex ?st"
      using turn True by (auto simp: acceptClient_def addClient_def Let_def emits_def new_context_def split: if_splits)
    have keys: "keys st = keys ?st @ [(s, p)]" and socks: "sockets st = (sockets ?st)(p \<mapsto> s)"
      by (auto simp: st keys_def sockets_def)
    have "chat_ok st" using ok p can(2) unfolding chat_ok_def keys socks keys_ok_def
      by (auto simp: ctxs_def image_iff)
    moreover have "ctxs st = insert p (ctxs ?st)" by (simp add: ctxs_def keys)
    moreover have "receiving st = receiving ?st" "\<not> clientsMutex st" using free by (simp_all add: st)
    moreover have "dom (sockets st) = insert p (dom (sockets ?st))" by (simp add: socks)
    ultimately have "chat_inv (\<sigma>\<lparr>chat := st, acceptor := Prompting s p\<rparr>)"
      using inv can(1) p free by (auto simp: chat_inv_def serving_def)
    moreover have "room_of st = room_of ?st @ [(s, None)]" by (simp add: st room_of_def)
    then have "delivers \<sigma> [Joins s] (\<sigma>\<lparr>chat := st, acceptor := Prompting s p\<rparr>)"
      using quiet by (intro delivers_one [of _ _ _ "[]"]) (simp_all add: st)
    ultimately show ?thesis using True by simp
  qed
qed

lemma accept_hangs_step:
  assumes inv: "chat_inv \<sigma>" and can: "accept_can \<sigma> s p"
    and turn: "acceptClient os s p (chat \<sigma>) = (added, Hangs st)"
  shows "chat_inv (\<sigma>\<lparr>chat := st, acceptor := Accept_hung\<rparr>) \<and> delivers \<sigma> [] (\<sigma>\<lparr>chat := st, acceptor := Accept_hung\<rparr>)"
proof -
  let ?st = "chat \<sigma>"
  have p: "sockets ?st p = None" "acceptor \<sigma> = Accepting" using can by (auto simp: accept_can_def sockets_def)
  obtain cs where st: "st = emits cs (new_context p (newContext s) ?st)" "responses cs = []" "clientsMutex ?st"
    using turn by (auto simp: acceptClient_def addClient_def Let_def emits_def new_context_def split: if_splits)
  have keys: "keys st = keys ?st" and socks: "sockets st = (sockets ?st)(p \<mapsto> s)"
    by (auto simp: st keys_def sockets_def)
  have "chat_ok st"
    using inv p(1) by (auto simp: chat_inv_def chat_ok_def keys_ok_def keys socks)
  moreover have "ctxs st = ctxs ?st" by (simp add: ctxs_def keys)
  ultimately have "chat_inv (\<sigma>\<lparr>chat := st, acceptor := Accept_hung\<rparr>)"
    using inv p(2) st by (auto simp: chat_inv_def serving_def)
  then show ?thesis using st by (simp add: delivers_none)
qed

text \<open>The client in the hands of the accepting thread.\<close>

lemma post_step:
  assumes inv: "chat_inv \<sigma>" and pc: "acceptor \<sigma> = Posting_receive p"
    and turn: "startAsyncReceive os p (chat \<sigma>) = Next st"
  shows "chat_inv (\<sigma>\<lparr>chat := st, acceptor := Accepting\<rparr>) \<and>
    delivers \<sigma> (if contexts st p = None then [Leaves (socket_of (chat \<sigma>) p)] else []) (\<sigma>\<lparr>chat := st, acceptor := Accepting\<rparr>)"
proof -
  let ?st = "chat \<sigma>"
  obtain x where x: "contexts ?st p = Some x"
    using turn by (auto simp: startAsyncReceive_def split: option.splits)
  have ok: "chat_ok ?st" using inv by (simp add: chat_inv_def)
  have "p \<in> ctxs ?st"
  proof (cases "hung \<sigma>")
    case True
    then have "serving \<sigma>" using inv by (simp add: chat_inv_def)
    then show ?thesis using inv pc by (simp add: chat_inv_def)
  next
    case False
    then have "dom (sockets ?st) = ctxs ?st" using inv by (simp add: chat_inv_def)
    then show ?thesis using x by (auto simp: sockets_def)
  qed
  then obtain s where key: "(s, p) \<in> set (keys ?st)" by (auto simp: ctxs_def)
  have s: "ctx_socket x = s" "socket_of ?st p = s"
    using key_context [OF ok key] x by (metis option.inject)+
  from x show ?thesis
  proof (cases rule: startAsyncReceive_cases [where os = os])
    case (posted cs y)
    then have st: "st = (emits cs (new_context p y ?st))\<lparr>receiving := insert p (receiving ?st)\<rparr>" using turn by simp
    have "alike ?st st"
      unfolding st alike_fields by (rule alike_trans [OF alike_new_context [OF x posted(3)] alike_emits])
    moreover have "receiving st = insert p (receiving ?st)" "clientsMutex st = clientsMutex ?st" by (simp_all add: st)
    ultimately have "chat_inv (\<sigma>\<lparr>chat := st, acceptor := Accepting\<rparr>)"
      using inv pc alike_ctxs [of ?st st] by (auto simp: chat_inv_def serving_def)
    then show ?thesis using posted(2) by (simp add: st delivers_none)
  next
    case (failed cs y)
    let ?st1 = "emits cs (new_context p y ?st)"
    have alike: "alike ?st ?st1" by (rule alike_trans [OF alike_new_context [OF x failed(3)] alike_emits])
    have ok1: "chat_ok ?st1" and key1: "(s, p) \<in> set (keys ?st1)"
      using ok key alike_ok [OF alike] alike by (simp_all only: alike_def)
    have rem: "removeClient s ?st1 = Next st" using failed(1) turn s by simp
    then have free: "\<not> clientsMutex ?st1" by (auto simp: removeClient_def)
    obtain xs where st: "gone s p ?st1 st"
      and xs: "room_spec (Leaves s) (room_of ?st1) = (room_of st, xs)" "responses (chat_calls st) = responses (chat_calls ?st1) @ xs"
      using removeClient_gone [OF ok1 key1 free] rem by auto
    have r: "receiving st = receiving ?st" "\<not> clientsMutex st" using st free by (simp_all add: gone_def)
    have "p \<notin> receiving ?st" if "serving \<sigma> \<or> stopper \<sigma> = Workers_joined"
      using inv pc that by (auto simp: chat_inv_def)
    then have "chat_inv (\<sigma>\<lparr>chat := st, acceptor := Accepting\<rparr>)"
      using inv pc r free gone_ctxs [OF ok1 key1 st] alike_ctxs [OF alike] by (auto simp: chat_inv_def serving_def)
    moreover have "sockets st p = None" using st by (simp add: gone_def)
    then have "contexts st p = None" by (simp add: sockets_def)
    moreover have "delivers \<sigma> [Leaves s] (\<sigma>\<lparr>chat := st, acceptor := Accepting\<rparr>)"
      using xs failed(2) by (intro delivers_one) simp_all
    ultimately show ?thesis using s by simp
  qed
qed

lemma post_hangs_step:
  assumes inv: "chat_inv \<sigma>" and pc: "acceptor \<sigma> = Posting_receive p"
    and turn: "startAsyncReceive os p (chat \<sigma>) = Hangs st"
  shows "chat_inv (\<sigma>\<lparr>chat := st, acceptor := Accept_hung\<rparr>) \<and> delivers \<sigma> [] (\<sigma>\<lparr>chat := st, acceptor := Accept_hung\<rparr>)"
proof -
  let ?st = "chat \<sigma>"
  obtain x where x: "contexts ?st p = Some x"
    using turn by (auto simp: startAsyncReceive_def split: option.splits)
  from x show ?thesis
  proof (cases rule: startAsyncReceive_cases [where os = os])
    case (posted cs y)
    then show ?thesis using turn by simp
  next
    case (failed cs y)
    let ?st1 = "emits cs (new_context p y ?st)"
    have alike: "alike ?st ?st1" by (rule alike_trans [OF alike_new_context [OF x failed(3)] alike_emits])
    have rem: "removeClient (ctx_socket x) ?st1 = Hangs st" using failed(1) turn by simp
    then have st: "st = ?st1" and "clientsMutex ?st"
      by (auto simp: removeClient_def Let_def split: if_splits option.splits)
    then have "chat_inv (\<sigma>\<lparr>chat := st, acceptor := Accept_hung\<rparr>)"
      using inv pc alike_ctxs [OF alike] by (auto simp: chat_inv_def serving_def)
    then show ?thesis using failed(2) by (simp add: st delivers_none)
  qed
qed

lemma alike_promptClient: "alike st (promptClient s st)"
  by (simp add: promptClient_def alike_emits)

lemma prompt_step:
  assumes "chat_inv \<sigma>" "acceptor \<sigma> = Prompting s p"
  defines "\<tau> \<equiv> \<sigma>\<lparr>chat := promptClient s (chat \<sigma>), acceptor := Posting_receive p\<rparr>"
  shows "chat_inv \<tau> \<and> delivers \<sigma> [Prompts s] \<tau>"
  using assms(1,2) alike_ctxs [OF alike_promptClient [of "chat \<sigma>" s]]
  by (auto simp: \<tau>_def chat_inv_def serving_def delivers_def promptClient_def)

text \<open>\<open>stopServer\<close> deletes the contexts of all clients.\<close>

lemma closeClients_ends:
  "closeClients st = Next st' \<Longrightarrow>
    \<not> clientsMutex st \<and> clientsMutex st' = clientsMutex st \<and> keys st' = [] \<and> room_of st' = [] \<and>
    dom (sockets st') = dom (sockets st) - ctxs st \<and> responses (chat_calls st') = responses (chat_calls st)"
proof -
  let ?f = "fold (\<lambda>c st. delete_context (ci_context c) (emits [Closesocket (ci_socket c)] st))"
  have f: "clientsMutex (?f cs st) = clientsMutex st \<and> contexts (?f cs st) = (\<lambda>p. if p \<in> ci_context ` set cs then None else contexts st p) \<and>
      responses (chat_calls (?f cs st)) = responses (chat_calls st)" for cs st
    by (induction cs arbitrary: st) (auto simp: fun_eq_iff)
  assume "closeClients st = Next st'"
  then have st': "st' = (?f (chat_clients st) st)\<lparr>chat_clients := []\<rparr>" "\<not> clientsMutex st"
    by (auto simp: closeClients_def split: if_splits)
  moreover have "ci_context ` set (chat_clients st) = ctxs st" by (simp add: ctxs_def keys_def image_image)
  ultimately show ?thesis
    using f [of "chat_clients st" st] by (auto simp: keys_def room_of_def sockets_def dom_def)
qed

lemma close_step:
  assumes inv: "chat_inv \<sigma>" and pc: "stopper \<sigma> = Workers_joined" and turn: "closeClients (chat \<sigma>) = Next st"
  shows "chat_inv (\<sigma>\<lparr>chat := st, stopper := Clients_closed\<rparr>) \<and> delivers \<sigma> [Closes] (\<sigma>\<lparr>chat := st, stopper := Clients_closed\<rparr>)"
proof -
  note st = closeClients_ends [OF turn]
  have live: "\<not> hung \<sigma>" using inv st by (simp add: chat_inv_def)
  then have "dom (sockets st) = ctxs st" using inv st by (simp add: chat_inv_def ctxs_def)
  then have "chat_inv (\<sigma>\<lparr>chat := st, stopper := Clients_closed\<rparr>)"
    using inv live st by (simp add: chat_inv_def serving_def chat_ok_def keys_ok_def)
  moreover have "delivers \<sigma> [Closes] (\<sigma>\<lparr>chat := st, stopper := Clients_closed\<rparr>)"
    using st by (intro delivers_one) simp_all
  ultimately show ?thesis ..
qed

lemma stop_end_step:
  assumes "stopper \<sigma> = Clients_closed" "chat_inv \<sigma>" "responses cs = []"
  defines "\<tau> \<equiv> \<sigma>\<lparr>chat := emits cs (chat \<sigma>), chat_serverSocket := INVALID_SOCKET, stopper := Chat_stopped\<rparr>"
  shows "chat_inv \<tau> \<and> delivers \<sigma> [] \<tau>"
  using assms(1,2,3) alike_ctxs [OF alike_emits [of "chat \<sigma>" cs]]
  by (auto simp: \<tau>_def delivers_none chat_inv_def serving_def)

lemma chat_step_sound:
  assumes "chat_step os \<sigma> es \<tau>" and "chat_inv \<sigma>"
  shows "chat_inv \<tau> \<and> delivers \<sigma> es \<tau>"
  using assms
proof (cases rule: chat_step.cases)
  case (worker p ok data st)
  then show ?thesis using chat_worker_step assms(2) by simp
next
  case (worker_hangs p ok data st)
  then show ?thesis using worker_hangs_step assms(2) by simp
next
  case (accept s p added st)
  then show ?thesis using accept_step assms(2) by simp
next
  case (accept_hangs s p added st)
  then show ?thesis using accept_hangs_step assms(2) by simp
next
  case (prompt s p)
  then show ?thesis using prompt_step assms(2) by simp
next
  case (post p st)
  then show ?thesis using post_step assms(2) by simp
next
  case (post_hangs p st)
  then show ?thesis using post_hangs_step assms(2) by simp
next
  case (worker_quits p)
  have "chat_inv \<tau>" using worker_quits assms(2) by (auto simp: chat_inv_def serving_def)
  moreover have "delivers \<sigma> es \<tau>" unfolding worker_quits(1) by (rule delivers_none) (simp_all add: worker_quits(2))
  ultimately show ?thesis ..
next
  case stop_clear
  then show ?thesis using assms(2) by (simp add: delivers_none chat_inv_def serving_def)
next
  case stop_join
  then show ?thesis using assms(2) by (simp add: delivers_none chat_inv_def serving_def)
next
  case (stop_close st)
  then show ?thesis using close_step assms(2) by simp
next
  case stop_end
  then show ?thesis using stop_end_step [OF stop_end(3) assms(2)] by simp
qed

interpretation room: trace_refinement "chat_step os" chat_inv "\<lambda>\<sigma>. room_of (chat \<sigma>)"
    "\<lambda>\<sigma>. responses (chat_calls (chat \<sigma>))" room_spec for os
proof
  show "chat_inv t" if "chat_inv s" "chat_step os s es t" for s es t
    using chat_step_sound [OF that(2,1)] by blast
  show "\<exists>xs. machine_run room_spec es (room_of (chat s)) = (room_of (chat t), xs) \<and>
      responses (chat_calls (chat t)) = responses (chat_calls (chat s)) @ xs" if "chat_inv s" "chat_step os s es t" for s es t
    using chat_step_sound [OF that(2,1)] by (simp add: delivers_def)
qed

lemma chat_started_inv: "chat_inv (chat_started s io h)" "room_of (chat (chat_started s io h)) = []"
  "chat_calls (chat (chat_started s io h)) = h"
  by (auto simp: chat_started_def chat_inv_def chat_ok_def keys_ok_def keys_def sockets_def ctxs_def serving_def room_of_def)

end
