(* ===== verification/Chat_Props.thy ===== *)
theory Chat_Props
  imports Chat_Thms
begin

text \<open>
  What the chat server promises its users, that no thread uses a deleted context before the
  clients are closed, and what goes wrong when a receive cannot be posted and when the server is
  stopped while a client is being accepted.
\<close>

section \<open>A server that hangs\<close>

lemma hung_step:
  assumes "chat_inv \<sigma>" "hung \<sigma>" "chat_step os \<sigma> es \<tau>"
  shows "hung \<tau> \<and> (\<forall>e \<in> set es. \<exists>s. e = Prompts s)"
proof -
  have mutex: "clientsMutex (chat \<sigma>)" and ok: "chat_ok (chat \<sigma>)" and s: "serving \<sigma>"
    using assms(1,2) by (simp_all add: chat_inv_def)
  have blocked: "\<exists>st'. workerTurn os p b data (completed p (chat \<sigma>)) = Hangs st'" if can: "worker_can \<sigma> p b data" for p b data
  proof -
    obtain s where "(s, p) \<in> set (keys (chat \<sigma>))" by (rule worker_key [OF assms(1) can])
    then show ?thesis using workerTurn_blocked [of "completed p (chat \<sigma>)" s p os b data] ok mutex by auto
  qed
  from assms(3) show ?thesis
  proof (cases rule: chat_step.cases)
    case (worker p b data st)
    then show ?thesis using blocked [of p b data] by auto
  next
    case (accept s p added st)
    then have "\<not> added" using mutex by (auto simp: acceptClient_def addClient_def Let_def split: if_splits)
    then show ?thesis using accept assms(2) by simp
  next
    case (post p st)
    then obtain x where x: "contexts (chat \<sigma>) p = Some x"
      by (auto simp: startAsyncReceive_def split: option.splits)
    then have "contexts st p \<noteq> None"
    proof (cases rule: startAsyncReceive_cases [where os = os])
      case (posted cs y)
      then show ?thesis using post by auto
    next
      case (failed cs y)
      then show ?thesis using post mutex by (simp add: removeClient_def)
    qed
    then show ?thesis using post assms(2) by simp
  qed (use assms(2) mutex s in \<open>auto simp: serving_def\<close>)
qed

lemma hung_run:
  "labelled_run (chat_step os) \<sigma> es \<tau> \<Longrightarrow> chat_inv \<sigma> \<Longrightarrow> hung \<sigma> \<Longrightarrow>
    chat_inv \<tau> \<and> hung \<tau> \<and> (\<forall>e \<in> set es. \<exists>s. e = Prompts s)"
proof (induction rule: labelled_run.induct)
  case (move \<sigma> es \<tau> fs \<upsilon>)
  then show ?case using hung_step [of \<tau> os fs \<upsilon>] chat_step_sound [OF move.hyps(2)] by auto
qed simp

lemma prompts_keep: "\<forall>e \<in> set fs. \<exists>s. e = Prompts s \<Longrightarrow> \<exists>xs. machine_run room_spec fs r = (r, xs)"
proof (induction fs)
  case (Cons e fs)
  then obtain s xs where "e = Prompts s" "machine_run room_spec fs r = (r, xs)" by auto
  then show ?case by simp
qed simp

text \<open>Nothing moves any more but the prompt of the accepting thread.\<close>

lemma frozen:
  assumes "labelled_run (chat_step os) \<sigma> fs \<tau>" and "chat_inv \<sigma>" and "hung \<sigma>"
  shows "clientsMutex (chat \<tau>) \<and> (stopper \<tau> = Running \<or> stopper \<tau> = Cleared) \<and> room_of (chat \<tau>) = room_of (chat \<sigma>) \<and>
    (\<forall>e \<in> set fs. \<exists>s. e = Prompts s)"
proof -
  have f: "chat_inv \<tau>" "hung \<tau>" "\<forall>e \<in> set fs. \<exists>s. e = Prompts s" using hung_run [OF assms] by auto
  obtain xs where "machine_run room_spec fs (room_of (chat \<sigma>)) = (room_of (chat \<tau>), xs)"
    using room.refines [OF assms(1,2)] by blast
  moreover have "\<exists>ys. machine_run room_spec fs r = (r, ys)" for r by (rule prompts_keep [OF f(3)])
  ultimately have "room_of (chat \<tau>) = room_of (chat \<sigma>)" by (metis Pair_inject)
  then show ?thesis using f by (simp add: chat_inv_def serving_def)
qed

section \<open>Runs to look at\<close>

text \<open>Moves of the threads, played one after the other.\<close>

datatype move = Accept SOCKET nat | Prompt | Post | Work nat bool string | Stop_clear | Stop_join | Stop_close

fun play1 :: "winsock \<Rightarrow> move \<Rightarrow> chat_sys \<Rightarrow> (room_event list \<times> chat_sys) option" where
  "play1 os (Accept s p) \<sigma> =
     (case acceptClient os s p (chat \<sigma>) of
        (True, Next st) \<Rightarrow> if accept_can \<sigma> s p then Some ([Joins s], \<sigma>\<lparr>chat := st, acceptor := Prompting s p\<rparr>) else None
      | _ \<Rightarrow> None)"
| "play1 os Prompt \<sigma> =
     (case acceptor \<sigma> of
        Prompting s p \<Rightarrow> Some ([Prompts s], \<sigma>\<lparr>chat := promptClient s (chat \<sigma>), acceptor := Posting_receive p\<rparr>)
      | _ \<Rightarrow> None)"
| "play1 os Post \<sigma> =
     (case acceptor \<sigma> of
        Posting_receive p \<Rightarrow>
          (case startAsyncReceive os p (chat \<sigma>) of
             Next st \<Rightarrow> if contexts st p = None then None else Some ([], \<sigma>\<lparr>chat := st, acceptor := Accepting\<rparr>)
           | _ \<Rightarrow> None)
      | _ \<Rightarrow> None)"
| "play1 os (Work p ok data) \<sigma> =
     (if \<not> worker_can \<sigma> p ok data \<or> \<not> ok \<or> data = [] then None
      else case workerTurn os p ok data (completed p (chat \<sigma>)) of
        Next st \<Rightarrow> Some ([Says (socket_of (chat \<sigma>) p) data], \<sigma>\<lparr>chat := st\<rparr>)
      | Hangs st \<Rightarrow> if clientsMutex (chat \<sigma>) then None
                     else Some ([Says (socket_of (chat \<sigma>) p) data], \<sigma>\<lparr>chat := st, hung := True\<rparr>)
      | _ \<Rightarrow> None)"
| "play1 os Stop_clear \<sigma> = (if stopper \<sigma> = Running then Some ([], \<sigma>\<lparr>stopper := Cleared\<rparr>) else None)"
| "play1 os Stop_join \<sigma> = (if stopper \<sigma> = Cleared \<and> \<not> hung \<sigma> then Some ([], \<sigma>\<lparr>stopper := Workers_joined\<rparr>) else None)"
| "play1 os Stop_close \<sigma> =
     (if stopper \<sigma> \<noteq> Workers_joined then None
      else case closeClients (chat \<sigma>) of Next st \<Rightarrow> Some ([Closes], \<sigma>\<lparr>chat := st, stopper := Clients_closed\<rparr>) | _ \<Rightarrow> None)"

fun play :: "winsock \<Rightarrow> move list \<Rightarrow> chat_sys \<Rightarrow> (room_event list \<times> chat_sys) option" where
  "play os [] \<sigma> = Some ([], \<sigma>)"
| "play os (m # ms) \<sigma> =
     (case play1 os m \<sigma> of
        None \<Rightarrow> None
      | Some (es, \<tau>) \<Rightarrow> (case play os ms \<tau> of None \<Rightarrow> None | Some (fs, \<upsilon>) \<Rightarrow> Some (es @ fs, \<upsilon>)))"

lemma play1_step:
  assumes "play1 os m \<sigma> = Some (es, \<tau>)"
  shows "chat_step os \<sigma> es \<tau>"
proof (cases m)
  case (Accept s p)
  then obtain st where "acceptClient os s p (chat \<sigma>) = (True, Next st)" "accept_can \<sigma> s p" "es = [Joins s]"
      "\<tau> = \<sigma>\<lparr>chat := st, acceptor := Prompting s p\<rparr>"
    using assms by (auto split: prod.splits bool.splits chat_end.splits if_splits)
  then show ?thesis using chat_step.accept [of \<sigma> s p os True st] by simp
next
  case Prompt
  then show ?thesis using assms by (auto split: accept_pc.splits intro: chat_step.prompt)
next
  case Post
  then obtain p st y where "acceptor \<sigma> = Posting_receive p" "startAsyncReceive os p (chat \<sigma>) = Next st" "contexts st p = Some y"
      "es = []" "\<tau> = \<sigma>\<lparr>chat := st, acceptor := Accepting\<rparr>"
    using assms by (auto split: accept_pc.splits chat_end.splits if_splits)
  then show ?thesis using chat_step.post [of \<sigma> p os st] by simp
next
  case (Work p ok data)
  then have can: "worker_can \<sigma> p ok data" "ok" "data \<noteq> []" using assms by (auto split: if_splits)
  show ?thesis
  proof (cases "workerTurn os p ok data (completed p (chat \<sigma>))")
    case (Next st)
    then show ?thesis using chat_step.worker [OF can(1) Next] assms can Work by simp
  next
    case (Hangs st)
    then show ?thesis using chat_step.worker_hangs [OF can(1) Hangs] assms can Work by (simp split: if_splits)
  next
    case (Use_after_free st)
    then show ?thesis using assms can Work by simp
  qed
next
  case Stop_clear
  then show ?thesis using assms by (auto split: if_splits intro: chat_step.stop_clear)
next
  case Stop_join
  then show ?thesis using assms by (auto split: if_splits intro: chat_step.stop_join)
next
  case Stop_close
  then show ?thesis using assms by (auto split: if_splits chat_end.splits intro: chat_step.stop_close)
qed

lemma play_run: "play os ms \<sigma> = Some (es, \<tau>) \<Longrightarrow> labelled_run (chat_step os) \<sigma> es \<tau>"
proof (induction ms arbitrary: \<sigma> es)
  case Nil
  then show ?case by (simp add: labelled_run.here)
next
  case (Cons m ms)
  then obtain es1 \<upsilon> fs where "play1 os m \<sigma> = Some (es1, \<upsilon>)" "play os ms \<upsilon> = Some (fs, \<tau>)" "es = es1 @ fs"
    by (auto split: option.splits)
  then show ?case using labelled_run_trans [OF Cons.IH labelled_run_one [of "chat_step os", OF play1_step]] by blast
qed

text \<open>A system that fails to post receives after some histories; and Bob and Eve in the room.\<close>

definition chatWinsock :: "(history \<Rightarrow> bool) \<Rightarrow> winsock" where
  "chatWinsock fails = \<lparr>answer = (\<lambda>h c. case c of Associate s k \<Rightarrow> 1 | WSARecv s \<Rightarrow> if fails h then SOCKET_ERROR else 0 | _ \<Rightarrow> 0),
     format_message = (\<lambda>h c. None)\<rparr>"

lemma chatWinsock_answers [simp]:
  "answer (chatWinsock f) h (Associate s k) = 1"
  "answer (chatWinsock f) h (WSARecv s) = (if f h then SOCKET_ERROR else 0)"
  "answer (chatWinsock f) h WSAGetLastError = 0"
  by (simp_all add: chatWinsock_def)

lemmas play_simps = accept_can_def worker_can_def socket_of_def acceptClient_def addClient_def promptClient_def startAsyncReceive_def
  workerTurn_def handleIOCompletion_chat_def handleNicknamePhase_def handleChatPhase_def broadcastMessage_def removeClient_def closeClients_def
  emits_def new_context_def delete_context_def completed_def newContext_def received_def terminate_at_def BUFFER_SIZE_def
  SOCKET_ERROR_def INVALID_SOCKET_def WSA_IO_PENDING_def chat_started_def Let_def

definition bob_and_eve :: "move list" where
  "bob_and_eve = [Accept 5 1, Prompt, Post, Work 1 True ''bob'', Accept 6 2, Prompt, Post, Work 2 True ''eve'']"

lemma bob_and_eve_run:
  "\<exists>es \<sigma>. labelled_run (chat_step (chatWinsock (\<lambda>h. False))) (chat_started 3 4 []) es \<sigma> \<and>
     room_of (chat \<sigma>) = [(5, Some ''bob''), (6, Some ''eve'')] \<and> stopper \<sigma> = Running \<and>
     (\<exists>\<tau>. play1 (chatWinsock (\<lambda>h. False)) (Work 1 True ''hi'') \<sigma> = Some ([Says 5 ''hi''], \<tau>))"
proof -
  have "\<exists>es \<sigma>. play (chatWinsock (\<lambda>h. False)) bob_and_eve (chat_started 3 4 []) = Some (es, \<sigma>) \<and>
     room_of (chat \<sigma>) = [(5, Some ''bob''), (6, Some ''eve'')] \<and> stopper \<sigma> = Running \<and>
     (\<exists>\<tau>. play1 (chatWinsock (\<lambda>h. False)) (Work 1 True ''hi'') \<sigma> = Some ([Says 5 ''hi''], \<tau>))"
    by (simp add: bob_and_eve_def play_simps room_of_def)
  then show ?thesis using play_run by blast
qed

section \<open>Properties\<close>

text \<open>
  C5. The chat server refines the room: on every interleaving of its threads, with every answer
  of Winsock, what has been sent is what the room sends for the events so far, in the same
  order, and those present, with their names, are those in the room.
\<close>

theorem chat_refines_room:
  assumes "labelled_run (chat_step os) (chat_started s io h) es \<sigma>"
  shows "\<exists>xs. machine_run room_spec es [] = (room_of (chat \<sigma>), xs) \<and> responses (chat_calls (chat \<sigma>)) = responses h @ xs"
  using room.refines [OF assms chat_started_inv(1)] by (simp add: chat_started_inv)

theorem chat_refines_room_witness:
  "\<exists>es (\<sigma> :: chat_sys) xs. machine_run room_spec es [] = (room_of (chat \<sigma>), xs) \<and> responses (chat_calls (chat \<sigma>)) = xs \<and>
     room_of (chat \<sigma>) = [(5, Some ''bob''), (6, Some ''eve'')]"
proof -
  obtain es \<sigma> where run: "labelled_run (chat_step (chatWinsock (\<lambda>h. False))) (chat_started 3 4 []) es \<sigma>"
    "room_of (chat \<sigma>) = [(5, Some ''bob''), (6, Some ''eve'')]" using bob_and_eve_run by blast
  from chat_refines_room [OF run(1)] run(2) show ?thesis by fastforce
qed

text \<open>
  C8. A message of a member of the room is sent exactly once to every other member, with the
  speaker's name in front, and to nobody else.
\<close>

theorem chat_message_delivered:
  assumes run: "labelled_run (chat_step os) (chat_started s0 io h) es \<sigma>"
    and says: "chat_step os \<sigma> [Says s m] \<tau>" and name: "name_of (room_of (chat \<sigma>)) s = Some nick"
  shows "\<exists>xs. responses (chat_calls (chat \<tau>)) = responses (chat_calls (chat \<sigma>)) @ xs \<and>
    (\<forall>t x. count_list xs (t, x) =
       (if t \<noteq> s \<and> t \<in> set (members (room_of (chat \<sigma>))) \<and> x = nick @ '': '' @ m @ newline then 1 else 0))"
proof -
  have inv: "chat_inv \<sigma>" by (rule room.I_run [OF run chat_started_inv(1)])
  let ?ts = "filter (\<lambda>t. t \<noteq> s) (members (room_of (chat \<sigma>)))"
  have "distinct (map ci_socket (chat_clients (chat \<sigma>)))" using inv by (simp add: chat_inv_def chat_ok_clients)
  then have d: "distinct ?ts" by (simp add: members_room_of distinct_map_filter)
  have count: "count_list (to_all x ts) (t, y) = (if y = x then count_list ts t else 0)" for x ts t y
    by (induction ts) (auto simp: to_all_def)
  have "delivers \<sigma> [Says s m] \<tau>" using chat_step_sound [OF says inv] by blast
  then obtain xs where xs: "responses (chat_calls (chat \<tau>)) = responses (chat_calls (chat \<sigma>)) @ xs"
      "room_spec (Says s m) (room_of (chat \<sigma>)) = (room_of (chat \<tau>), xs)"
    by (auto simp: delivers_def split: prod.splits)
  have "xs = snd (room_spec (Says s m) (room_of (chat \<sigma>)))" by (simp only: xs(2) snd_conv)
  also have "\<dots> = to_all (nick @ '': '' @ m @ newline) ?ts" using name by simp
  finally have "xs = to_all (nick @ '': '' @ m @ newline) ?ts" .
  with xs(1) d show ?thesis by (intro exI [of _ xs]) (simp add: count count_list_distinct)
qed

theorem chat_message_delivered_witness:
  "\<exists>(\<sigma> :: chat_sys) (\<tau> :: chat_sys) xs. responses (chat_calls (chat \<tau>)) = responses (chat_calls (chat \<sigma>)) @ xs \<and> count_list xs (6, ''bob: hi'' @ newline) = 1"
proof -
  obtain es \<sigma> \<tau> where run: "labelled_run (chat_step (chatWinsock (\<lambda>h. False))) (chat_started 3 4 []) es \<sigma>"
    "room_of (chat \<sigma>) = [(5, Some ''bob''), (6, Some ''eve'')]"
    "play1 (chatWinsock (\<lambda>h. False)) (Work 1 True ''hi'') \<sigma> = Some ([Says 5 ''hi''], \<tau>)" using bob_and_eve_run by blast
  have name: "name_of (room_of (chat \<sigma>)) 5 = Some ''bob''" "6 \<in> set (members (room_of (chat \<sigma>)))"
    by (simp_all add: run(2) name_of_def members_def)
  from chat_message_delivered [OF run(1) play1_step [OF run(3)] name(1)] obtain xs where
    xs: "responses (chat_calls (chat \<tau>)) = responses (chat_calls (chat \<sigma>)) @ xs"
      "\<forall>t x. count_list xs (t, x) =
        (if t \<noteq> 5 \<and> t \<in> set (members (room_of (chat \<sigma>))) \<and> x = ''bob'' @ '': '' @ ''hi'' @ newline then 1 else 0)" by blast
  have "count_list xs (6, ''bob'' @ '': '' @ ''hi'' @ newline) = 1" using xs(2) name(2) by simp
  with xs(1) show ?thesis by auto
qed

text \<open>
  C9. Until \<open>stopServer\<close> closes the clients no thread uses a context that has been deleted; and
  unless a worker hangs, the contexts allocated are exactly those of the clients; none has both a
  receive posted and its first one still to be posted by the accepting thread; and while the
  server runs each has one of the two.
\<close>

theorem chat_contexts_sound:
  assumes "labelled_run (chat_step os) (chat_started s io h) es \<sigma>"
    and "stopper \<sigma> = Running \<or> stopper \<sigma> = Cleared \<or> stopper \<sigma> = Workers_joined"
  shows "\<not> chat_fault os \<sigma> \<and>
    (hung \<sigma> \<or> (dom (contexts (chat \<sigma>)) = ci_context ` set (chat_clients (chat \<sigma>)) \<and>
       (stopper \<sigma> = Running \<longrightarrow> dom (contexts (chat \<sigma>)) = receiving (chat \<sigma>) \<union> held (acceptor \<sigma>)) \<and>
       receiving (chat \<sigma>) \<union> held (acceptor \<sigma>) \<subseteq> dom (contexts (chat \<sigma>)) \<and> receiving (chat \<sigma>) \<inter> held (acceptor \<sigma>) = {}))"
proof
  have inv: "chat_inv \<sigma>" by (rule room.I_run [OF assms(1) chat_started_inv(1)])
  have live: "\<exists>x. contexts (chat \<sigma>) p = Some x" if "p \<in> receiving (chat \<sigma>) \<union> held (acceptor \<sigma>)" for p
  proof -
    have "p \<in> ctxs (chat \<sigma>)" using inv assms(2) that by (auto simp: chat_inv_def serving_def)
    then obtain s where "(s, p) \<in> set (keys (chat \<sigma>))" by (auto simp: ctxs_def)
    moreover have "chat_ok (chat \<sigma>)" using inv by (simp add: chat_inv_def)
    ultimately show ?thesis by (blast elim: key_context)
  qed
  show "\<not> chat_fault os \<sigma>"
  proof
    assume "chat_fault os \<sigma>"
    then show False
    proof (cases rule: chat_fault.cases)
      case (worker p ok data st)
      then obtain s where key: "(s, p) \<in> set (keys (completed p (chat \<sigma>)))"
        using worker_key [OF inv, of p ok data] by auto
      have ok0: "chat_ok (completed p (chat \<sigma>))" using inv by (simp add: chat_inv_def)
      show False using worker(2) workerTurn_safe [OF ok0 key] by metis
    next
      case (post p st)
      then obtain x where "contexts (chat \<sigma>) p = Some x" using live [of p] by auto
      then show False
      proof (cases rule: startAsyncReceive_cases [where os = os])
        case (posted cs y)
        then show False using post by simp
      next
        case (failed cs y)
        then show False using post by (auto simp: removeClient_def Let_def split: if_splits option.splits)
      qed
    qed
  qed
  show "hung \<sigma> \<or> (dom (contexts (chat \<sigma>)) = ci_context ` set (chat_clients (chat \<sigma>)) \<and>
      (stopper \<sigma> = Running \<longrightarrow> dom (contexts (chat \<sigma>)) = receiving (chat \<sigma>) \<union> held (acceptor \<sigma>)) \<and>
      receiving (chat \<sigma>) \<union> held (acceptor \<sigma>) \<subseteq> dom (contexts (chat \<sigma>)) \<and> receiving (chat \<sigma>) \<inter> held (acceptor \<sigma>) = {})"
  proof (cases "hung \<sigma>")
    case False
    have "dom (sockets (chat \<sigma>)) = dom (contexts (chat \<sigma>))" by (auto simp: sockets_def)
    moreover have "ctxs (chat \<sigma>) = ci_context ` set (chat_clients (chat \<sigma>))" by (simp add: ctxs_def keys_def image_image)
    ultimately show ?thesis using inv assms(2) False by (auto simp: chat_inv_def serving_def)
  qed simp
qed

theorem chat_contexts_sound_witness:
  "\<exists>\<sigma>. room_of (chat \<sigma>) = [(5, Some ''bob''), (6, Some ''eve'')] \<and> \<not> chat_fault (chatWinsock (\<lambda>h. False)) \<sigma>"
proof -
  obtain es \<sigma> where run: "labelled_run (chat_step (chatWinsock (\<lambda>h. False))) (chat_started 3 4 []) es \<sigma>"
    "room_of (chat \<sigma>) = [(5, Some ''bob''), (6, Some ''eve'')]" "stopper \<sigma> = Running" using bob_and_eve_run by blast
  from chat_contexts_sound [OF run(1)] run(2,3) show ?thesis by blast
qed

text \<open>
  C22. A worker has a message in hand, the mutex is free, and the receive it posts after the message
  fails with an error other than \<open>WSA_IO_PENDING\<close>: then the worker waits for the mutex it holds. From
  then on, whatever the other threads do, the mutex is never free again, nobody joins, is heard or
  leaves, and \<open>stopServer\<close> never gets past joining the workers.
\<close>

theorem chat_freezes:
  assumes "labelled_run (chat_step os) (chat_started s0 io h) es \<sigma>"
    and "worker_can \<sigma> p True data" and "data \<noteq> []" and "\<not> clientsMutex (chat \<sigma>)"
    and "find_index (\<lambda>c. ci_context c = p) (chat_clients (chat \<sigma>)) = Some i" and "s = socket_of (chat \<sigma>) p"
    and "h1 = chat_calls (heard_from i data (chat \<sigma>))"
    and "answer os h1 (WSARecv s) = SOCKET_ERROR" and "answer os (h1 @ [WSARecv s]) WSAGetLastError \<noteq> WSA_IO_PENDING"
  shows "\<exists>st. workerTurn os p True data (completed p (chat \<sigma>)) = Hangs st \<and>
    (\<exists>\<upsilon>. \<upsilon> = \<sigma>\<lparr>chat := st, hung := True\<rparr> \<and> chat_step os \<sigma> [Says s data] \<upsilon> \<and>
      (\<forall>fs \<tau>. labelled_run (chat_step os) \<upsilon> fs \<tau> \<longrightarrow>
        clientsMutex (chat \<tau>) \<and> (stopper \<tau> = Running \<or> stopper \<tau> = Cleared) \<and> room_of (chat \<tau>) = room_of (chat \<upsilon>) \<and>
        (\<forall>e \<in> set fs. \<exists>t. e = Prompts t)))"
proof -
  have inv: "chat_inv \<sigma>" by (rule room.I_run [OF assms(1) chat_started_inv(1)])
  obtain t where key: "(t, p) \<in> set (keys (chat \<sigma>))" "socket_of (chat \<sigma>) p = t" by (rule worker_key [OF inv assms(2)])
  let ?st0 = "completed p (chat \<sigma>)"
  have st0: "chat_ok ?st0" "(s, p) \<in> set (keys ?st0)" "\<not> clientsMutex ?st0"
    using inv key assms(4,6) by (simp_all add: chat_inv_def)
  have i: "find_index (\<lambda>c. ci_context c = p) (chat_clients ?st0) = Some i" "h1 = chat_calls (heard_from i data ?st0)"
    using assms(5,7) heard_from_calls [of ?st0 "chat \<sigma>" i data] by (simp_all add: completed_def)
  obtain st where hangs: "workerTurn os p True data ?st0 = Hangs st"
    using workerTurn_self_locks [OF st0 assms(3) i assms(8,9)] by blast
  let ?v = "\<sigma>\<lparr>chat := st, hung := True\<rparr>"
  have step: "chat_step os \<sigma> [Says s data] ?v" using chat_step.worker_hangs [OF assms(2) hangs] assms(4,6) by simp
  have inv': "chat_inv ?v" using chat_step_sound [OF step inv] by simp
  have "clientsMutex (chat \<tau>) \<and> (stopper \<tau> = Running \<or> stopper \<tau> = Cleared) \<and> room_of (chat \<tau>) = room_of (chat ?v) \<and>
      (\<forall>e \<in> set fs. \<exists>t. e = Prompts t)" if run: "labelled_run (chat_step os) ?v fs \<tau>" for fs \<tau>
    by (rule frozen [OF run inv']) simp
  with hangs step show ?thesis by blast
qed

text \<open>Bob gives his name, and the system has no room for another receive.\<close>

theorem chat_freezes_witness:
  "\<exists>(\<sigma> :: chat_sys) (\<upsilon> :: chat_sys). room_of (chat \<sigma>) = [(5, None)] \<and>
     chat_step (chatWinsock (\<lambda>h. Cout (''New user: bob'' @ newline) \<in> set h)) \<sigma> [Says 5 ''bob''] \<upsilon> \<and> clientsMutex (chat \<upsilon>)"
proof -
  let ?full = "\<lambda>h. Cout (''New user: bob'' @ newline) \<in> set h"
  let ?os = "chatWinsock ?full"
  let ?bob = "\<lparr>ci_socket = 5, nickname = [], ci_context = 1, ci_state = AWAITING_NICKNAME\<rparr>"
  have "\<exists>es \<sigma>. play ?os [Accept 5 1, Prompt, Post] (chat_started 3 4 []) = Some (es, \<sigma>) \<and>
     chat_clients (chat \<sigma>) = [?bob] \<and> worker_can \<sigma> 1 True ''bob'' \<and> \<not> clientsMutex (chat \<sigma>) \<and> socket_of (chat \<sigma>) 1 = 5"
    by (simp add: play_simps)
  then obtain es \<sigma> where run: "labelled_run (chat_step ?os) (chat_started 3 4 []) es \<sigma>"
    and \<sigma>: "chat_clients (chat \<sigma>) = [?bob]" "worker_can \<sigma> 1 True ''bob''" "\<not> clientsMutex (chat \<sigma>)" "socket_of (chat \<sigma>) 1 = 5"
    using play_run by blast
  have here: "room_of (chat \<sigma>) = [(5, None)]" "find_index (\<lambda>c. ci_context c = 1) (chat_clients (chat \<sigma>)) = Some 0"
    by (simp_all add: \<sigma>(1) room_of_def)
  have full: "?full (chat_calls (heard_from 0 ''bob'' (chat \<sigma>)))"
    by (simp add: \<sigma>(1) heard_from_def handleNicknamePhase_def broadcastMessage_def emits_def Let_def)
  have fails: "answer ?os h1 (WSARecv 5) = SOCKET_ERROR" "answer ?os (h1 @ [WSARecv 5]) WSAGetLastError \<noteq> WSA_IO_PENDING" if "?full h1" for h1
    using that by (simp_all add: WSA_IO_PENDING_def)
  obtain \<upsilon> where \<upsilon>: "chat_step ?os \<sigma> [Says 5 ''bob''] \<upsilon>"
    "\<forall>fs \<tau>. labelled_run (chat_step ?os) \<upsilon> fs \<tau> \<longrightarrow> clientsMutex (chat \<tau>)"
    using chat_freezes [OF run \<sigma>(2) list.distinct(2) \<sigma>(3) here(2) \<sigma>(4) [symmetric] refl fails [OF full]] by blast
  have "clientsMutex (chat \<upsilon>)" by (rule \<upsilon>(2) [rule_format, OF labelled_run.here])
  with \<upsilon>(1) here(1) show ?thesis by (intro exI [of _ \<sigma>] exI [of _ \<upsilon>]) simp
qed

text \<open>
  C30. \<open>stopServer\<close> does not wait for the accepting thread: when it is stopped between \<open>addClient\<close>
  and the first receive of a client, the context is deleted and the thread then uses it.
\<close>

theorem chat_stop_race:
  assumes "\<And>h c k. answer os h (Associate c k) \<noteq> 0"
  shows "\<exists>es \<sigma>. labelled_run (chat_step os) (chat_started s io h) es \<sigma> \<and> stopper \<sigma> = Clients_closed \<and> chat_fault os \<sigma>"
proof -
  have "\<exists>es \<sigma>. play os [Accept 5 1, Stop_clear, Stop_join, Stop_close, Prompt] (chat_started s io h) = Some (es, \<sigma>) \<and>
      stopper \<sigma> = Clients_closed \<and> acceptor \<sigma> = Posting_receive 1 \<and> contexts (chat \<sigma>) 1 = None"
    using assms by (simp add: play_simps)
  then obtain es \<sigma> where \<sigma>: "labelled_run (chat_step os) (chat_started s io h) es \<sigma>" "stopper \<sigma> = Clients_closed"
    "acceptor \<sigma> = Posting_receive 1" "contexts (chat \<sigma>) 1 = None" using play_run by blast
  have "startAsyncReceive os 1 (chat \<sigma>) = Use_after_free (chat \<sigma>)" using \<sigma>(4) by (simp add: startAsyncReceive_def)
  then have "chat_fault os \<sigma>" by (rule chat_fault.post [OF \<sigma>(3)])
  with \<sigma>(1,2) show ?thesis by blast
qed

theorem chat_stop_race_witness:
  "\<exists>es \<sigma>. labelled_run (chat_step (chatWinsock (\<lambda>h. False))) (chat_started 3 4 []) es \<sigma> \<and> chat_fault (chatWinsock (\<lambda>h. False)) \<sigma>"
  using chat_stop_race [of "chatWinsock (\<lambda>h. False)" 3 4 "[]"] by auto

text \<open>
  A start that fails never ends Winsock again, and a failure after \<open>socket\<close> closes the socket.
\<close>

lemma startChat_leaks:
  assumes "run_state (startChat os port) h = (None, h')"
  shows "\<exists>cs. h' = h @ cs \<and> WSACleanup \<notin> set cs"
  using assms
  by (auto simp: startChat_def orClose_def Let_def split: prod.splits if_splits)

end
