(* ===== verification/Chat_Client.thy ===== *)
theory Chat_Client
  imports Thread_Client
begin

text \<open>
  The console client of the chat, \<open>src/tests/chat/chat_client.cpp\<close>: the main thread sends the lines
  typed, the receiver shows what the server sends, and both watch \<open>g_running\<close>. One step is one
  access to the flag or one blocking call; \<open>getline\<close> and \<open>recv\<close> return only when there is
  something to return, and what comes from outside, typed or received, comes in steps of its own.
\<close>

section \<open>State\<close>

text \<open>
  The main thread: at the test of its loop, in \<open>getline\<close>, with a line, sending it, after a failed
  send, at the test before the prompt, about to clear the flag after \<open>exit\<close>, before \<open>shutdown\<close>,
  in \<open>join\<close>, returned. The receiver: at the test of its loop, in \<open>recv\<close>, at the test before the
  prompt, about to clear the flag, returned.
\<close>

datatype main_pc = M_test | M_line | M_got string | M_send string | M_failed | M_prompt | M_exit | M_shutdown | M_join | M_over

datatype receiver_pc = R_test | R_recv | R_prompt | R_stop | R_over

text \<open>
  \<open>cc_cin\<close> is all the input there will be. \<open>cc_to_come\<close> counts what of it is still to be typed:
  its last characters, and one more for the end of the input. \<open>cc_inbox\<close> holds what has arrived at
  the socket, as \<open>recv\<close> will give it.
\<close>

record chat_client =
  cc_socket :: SOCKET
  g_running :: bool
  cc_cin :: cin
  cc_to_come :: nat
  cc_inbox :: "recv_result list"
  cc_main :: main_pc
  cc_receiver :: receiver_pc
  cc_calls :: history

definition cc_emits :: "history \<Rightarrow> chat_client \<Rightarrow> chat_client" where
  "cc_emits cs \<sigma> = \<sigma>\<lparr>cc_calls := cc_calls \<sigma> @ cs\<rparr>"

definition CLEAR_LINE :: string where
  "CLEAR_LINE = CHR 0x0D # replicate 80 (CHR '' '') @ [CHR 0x0D]"

text \<open>
  \<open>getline\<close> returns: the stream has failed or ended, or what has been typed holds a line feed or
  more than fits.
\<close>

definition line_ready :: "chat_client \<Rightarrow> bool" where
  "line_ready \<sigma> \<longleftrightarrow> \<not> good (cc_cin \<sigma>) \<or> cc_to_come \<sigma> = 0 \<or>
     (let typed = take (length (pending (cc_cin \<sigma>)) + 1 - cc_to_come \<sigma>) (pending (cc_cin \<sigma>))
      in CHR 0x0A \<in> set typed \<or> BUFFER \<le> length typed)"

section \<open>The main thread\<close>

text \<open>
  \<open>main\<close> up to the thread of the receiver, once the nickname has been typed: an exit code with the
  calls made, or the two threads.
\<close>

definition chatClientStart :: "winsock \<Rightarrow> cin \<Rightarrow> history \<Rightarrow> (int \<times> history) + chat_client" where
  "chatClientStart os c h =
     (let h1 = h @ [WSAStartup] in
      if answer os h WSAStartup \<noteq> 0 then Inl (1, h1 @ [Cerr (''WSAStartup failed.'' @ newline)])
      else
        let s = answer os h1 Socket; h2 = h1 @ [Socket] in
        if s = INVALID_SOCKET
        then Inl (1, snd (run_state (errorLine os ''Socket creation failed: '') h2) @ [WSACleanup])
        else
          let h3 = h2 @ [Cout (''Connecting to server...'' @ newline)];
              connect = Connect s ''127.0.0.1'' 8080; h4 = h3 @ [connect] in
          if answer os h3 connect = SOCKET_ERROR
          then Inl (1, snd (run_state (errorLine os ''Connect failed: '') h4) @ [Closesocket s, WSACleanup])
          else
            case cinGetline 256 c of (nick, c1) \<Rightarrow>
              let h5 = h4 @ [Cout (''Connected to server!'' @ newline @ newline), Cout ''Enter your nickname: ''];
                  hello = Send s (c_str nick); h6 = h5 @ [hello] in
              if answer os h5 hello = SOCKET_ERROR
              then Inl (1, snd (run_state (errorLine os ''Failed to send nickname: '') h6) @ [Closesocket s, WSACleanup])
              else Inr \<lparr>cc_socket = s, g_running = True, cc_cin = c1, cc_to_come = length (pending c1) + 1, cc_inbox = [],
                     cc_main = M_test, cc_receiver = R_test,
                     cc_calls = h6 @ [Cout (''Type messages (type '' @ [CHR 0x27] @ ''exit'' @ [CHR 0x27] @ '' to quit):'' @ newline), Cout ''> '']\<rparr>)"

fun main_move :: "winsock \<Rightarrow> main_pc \<Rightarrow> chat_client \<Rightarrow> chat_client option" where
  "main_move os M_test \<sigma> = Some (\<sigma>\<lparr>cc_main := if g_running \<sigma> then M_line else M_shutdown\<rparr>)"
| "main_move os M_line \<sigma> =
     (if \<not> line_ready \<sigma> then None
      else case cinGetline BUFFER (cc_cin \<sigma>) of (line, c) \<Rightarrow> Some (\<sigma>\<lparr>cc_cin := c, cc_main := M_got (c_str line)\<rparr>))"
| "main_move os (M_got line) \<sigma> =
     Some (\<sigma>\<lparr>cc_main := if \<not> g_running \<sigma> then M_shutdown else if line = ''exit'' then M_exit else M_send line\<rparr>)"
| "main_move os (M_send line) \<sigma> =
     Some (if answer os (cc_calls \<sigma>) (Send (cc_socket \<sigma>) line) = SOCKET_ERROR
           then (cc_emits [Send (cc_socket \<sigma>) line, Cerr (''Send failed'' @ newline)] \<sigma>)\<lparr>cc_main := M_failed\<rparr>
           else (cc_emits [Send (cc_socket \<sigma>) line] \<sigma>)\<lparr>cc_main := M_prompt\<rparr>)"
| "main_move os M_failed \<sigma> = Some (\<sigma>\<lparr>g_running := False, cc_main := M_prompt\<rparr>)"
| "main_move os M_prompt \<sigma> = Some ((if g_running \<sigma> then cc_emits [Cout ''> ''] \<sigma> else \<sigma>)\<lparr>cc_main := M_test\<rparr>)"
| "main_move os M_exit \<sigma> = Some (\<sigma>\<lparr>g_running := False, cc_main := M_shutdown\<rparr>)"
| "main_move os M_shutdown \<sigma> = Some ((cc_emits [Shutdown_send (cc_socket \<sigma>)] \<sigma>)\<lparr>cc_main := M_join\<rparr>)"
| "main_move os M_join \<sigma> =
     (if cc_receiver \<sigma> \<noteq> R_over then None
      else Some ((cc_emits [Closesocket (cc_socket \<sigma>), WSACleanup] \<sigma>)\<lparr>cc_main := M_over\<rparr>))"
| "main_move os M_over \<sigma> = None"

section \<open>The receiver\<close>

text \<open>What the receiver does with an answer of \<open>recv\<close>.\<close>

fun recvAnswer :: "recv_result \<Rightarrow> chat_client \<Rightarrow> chat_client" where
  "recvAnswer (Received data) \<sigma> =
     (cc_emits [Cout CLEAR_LINE, Cout (c_str data @ newline)] \<sigma>)\<lparr>cc_receiver := R_prompt\<rparr>"
| "recvAnswer Disconnected \<sigma> =
     (cc_emits [Cout CLEAR_LINE, Cout (''Server closed the connection.'' @ newline)] \<sigma>)\<lparr>cc_receiver := R_stop\<rparr>"
| "recvAnswer (Recv_error e) \<sigma> =
     (cc_emits
       (if e = WSAECONNRESET then [WSAGetLastError]
        else [WSAGetLastError, Cout CLEAR_LINE, Cerr ''Recv error: '', WSAGetLastError,
              Cerr (int_to_string (sint (ucast e :: u32)) @ newline)]) \<sigma>)\<lparr>cc_receiver := R_stop\<rparr>"

fun recv_move :: "receiver_pc \<Rightarrow> chat_client \<Rightarrow> chat_client option" where
  "recv_move R_test \<sigma> = Some (\<sigma>\<lparr>cc_receiver := if g_running \<sigma> then R_recv else R_over\<rparr>)"
| "recv_move R_recv \<sigma> =
     (case cc_inbox \<sigma> of [] \<Rightarrow> None | r # later \<Rightarrow> Some (recvAnswer r (\<sigma>\<lparr>cc_inbox := later\<rparr>)))"
| "recv_move R_prompt \<sigma> = Some ((if g_running \<sigma> then cc_emits [Cout ''> ''] \<sigma> else \<sigma>)\<lparr>cc_receiver := R_test\<rparr>)"
| "recv_move R_stop \<sigma> = Some (\<sigma>\<lparr>g_running := False, cc_receiver := R_test\<rparr>)"
| "recv_move R_over \<sigma> = None"

section \<open>The threads and what is outside\<close>

text \<open>A step of the client's own threads.\<close>

inductive cc_move :: "winsock \<Rightarrow> chat_client \<Rightarrow> chat_client \<Rightarrow> bool" for os where
  main: "main_move os (cc_main \<sigma>) \<sigma> = Some \<tau> \<Longrightarrow> cc_move os \<sigma> \<tau>"
| receiver: "recv_move (cc_receiver \<sigma>) \<sigma> = Some \<tau> \<Longrightarrow> cc_move os \<sigma> \<tau>"

text \<open>
  A step outside: one more character of the input is typed, or the input ends; an answer of \<open>recv\<close>
  is there, of one character at least and at most what the buffer takes.
\<close>

inductive cc_outside :: "chat_client \<Rightarrow> chat_client \<Rightarrow> bool" where
  types: "cc_to_come \<sigma> = Suc n \<Longrightarrow> cc_outside \<sigma> (\<sigma>\<lparr>cc_to_come := n\<rparr>)"
| arrives: "\<forall>data. r = Received data \<longrightarrow> data \<noteq> [] \<and> length data < BUFFER \<Longrightarrow> cc_outside \<sigma> (\<sigma>\<lparr>cc_inbox := cc_inbox \<sigma> @ [r]\<rparr>)"

inductive cc_step :: "winsock \<Rightarrow> chat_client \<Rightarrow> chat_client \<Rightarrow> bool" for os where
  own: "cc_move os \<sigma> \<tau> \<Longrightarrow> cc_step os \<sigma> \<tau>"
| outside: "cc_outside \<sigma> \<tau> \<Longrightarrow> cc_step os \<sigma> \<tau>"

end
