(* ===== verification/Chat_Client_Thms.thy ===== *)
theory Chat_Client_Thms
  imports Chat_Client Thread_Client_Thms
begin

text \<open>
  The chat client on every interleaving of its two threads: what it sends, that it releases its
  socket once and last, that it ends when the flag is cleared, and that the end of the input does
  not end it.
\<close>

section \<open>Invariants\<close>

text \<open>The first lines that \<open>getline\<close> gives, as C strings, and the stream after them.\<close>

fun typed_lines :: "nat \<Rightarrow> cin \<Rightarrow> string list \<times> cin" where
  "typed_lines 0 c = ([], c)"
| "typed_lines (Suc n) c =
     (case typed_lines n c of (ls, c1) \<Rightarrow> case cinGetline BUFFER c1 of (l, c2) \<Rightarrow> (ls @ [c_str l], c2))"

text \<open>
  Of the lines read, those not sent: one that is in hand, the line \<open>exit\<close>, or at the end one that
  was dropped. \<open>stopped\<close>: the client had another reason to end than the line \<open>exit\<close>, which it
  has shown.
\<close>

fun left_over :: "main_pc \<Rightarrow> string list \<Rightarrow> bool" where
  "left_over (M_got l) u = (u = [l])"
| "left_over (M_send l) u = (u = [l] \<and> l \<noteq> ''exit'')"
| "left_over M_exit u = (u = [''exit''])"
| "left_over pc u = (if pc \<in> {M_shutdown, M_join, M_over} then length u \<le> 1 else u = [])"

definition stopped :: "history \<Rightarrow> bool" where
  "stopped cs \<longleftrightarrow> Cerr (''Send failed'' @ newline) \<in> set cs \<or> Cout (''Server closed the connection.'' @ newline) \<in> set cs \<or>
     WSAGetLastError \<in> set cs"

definition client_inv :: "SOCKET \<Rightarrow> cin \<Rightarrow> history \<Rightarrow> chat_client \<Rightarrow> bool" where
  "client_inv s c0 h0 \<sigma> \<longleftrightarrow>
     cc_socket \<sigma> = s \<and>
     (cc_main \<sigma> \<in> {M_shutdown, M_join, M_over} \<or> cc_receiver \<sigma> = R_over \<longrightarrow> \<not> g_running \<sigma>) \<and>
     (cc_main \<sigma> = M_over \<longrightarrow> cc_receiver \<sigma> = R_over) \<and>
     (\<exists>cs n u. cc_calls \<sigma> = h0 @ cs \<and> fst ` set (responses cs) \<subseteq> {s} \<and> ''exit'' \<notin> snd ` set (responses cs) \<and>
        typed_lines n c0 = (map snd (responses cs) @ u, cc_cin \<sigma>) \<and> left_over (cc_main \<sigma>) u \<and>
        (stopped cs \<or> (if g_running \<sigma> then cc_main \<sigma> \<noteq> M_failed \<and> cc_receiver \<sigma> \<noteq> R_stop
           else cc_main \<sigma> \<in> {M_shutdown, M_join, M_over} \<and> u = [''exit''])) \<and>
        count_list cs WSACleanup = (if cc_main \<sigma> = M_over then 1 else 0) \<and>
        (\<forall>x. count_list cs (Closesocket x) = (if cc_main \<sigma> = M_over \<and> x = s then 1 else 0)))"

lemma typed_lines_snoc: "typed_lines n c0 = (ls @ [l], c) \<Longrightarrow> \<exists>m. ls = fst (typed_lines m c0)"
  by (cases n) (auto split: prod.splits intro: exI [of _ "n - 1"])

lemma typed_lines_next: "typed_lines n c0 = (ls, c) \<Longrightarrow> cinGetline BUFFER c = (l, c') \<Longrightarrow> typed_lines (Suc n) c0 = (ls @ [c_str l], c')"
  by simp

text \<open>One step of the main thread, on the part of the invariant that speaks of the calls.\<close>

definition sent_inv :: "SOCKET \<Rightarrow> cin \<Rightarrow> chat_client \<Rightarrow> history \<Rightarrow> nat \<Rightarrow> string list \<Rightarrow> bool" where
  "sent_inv s c0 \<sigma> cs n u \<longleftrightarrow> fst ` set (responses cs) \<subseteq> {s} \<and> ''exit'' \<notin> snd ` set (responses cs) \<and>
     typed_lines n c0 = (map snd (responses cs) @ u, cc_cin \<sigma>) \<and> left_over (cc_main \<sigma>) u \<and>
     (stopped cs \<or> (if g_running \<sigma> then cc_main \<sigma> \<noteq> M_failed \<and> cc_receiver \<sigma> \<noteq> R_stop
        else cc_main \<sigma> \<in> {M_shutdown, M_join, M_over} \<and> u = [''exit''])) \<and>
     count_list cs WSACleanup = (if cc_main \<sigma> = M_over then 1 else 0) \<and>
     (\<forall>x. count_list cs (Closesocket x) = (if cc_main \<sigma> = M_over \<and> x = s then 1 else 0))"

lemma client_inv_sent_inv:
  "client_inv s c0 h0 \<sigma> \<longleftrightarrow> cc_socket \<sigma> = s \<and>
     (cc_main \<sigma> \<in> {M_shutdown, M_join, M_over} \<or> cc_receiver \<sigma> = R_over \<longrightarrow> \<not> g_running \<sigma>) \<and>
     (cc_main \<sigma> = M_over \<longrightarrow> cc_receiver \<sigma> = R_over) \<and>
     (\<exists>cs n u. cc_calls \<sigma> = h0 @ cs \<and> sent_inv s c0 \<sigma> cs n u)"
  by (simp only: client_inv_def sent_inv_def)

lemma stopped_append [simp]: "stopped cs \<Longrightarrow> stopped (cs @ ds)"
  by (auto simp: stopped_def)

lemma main_move_sent:
  assumes "main_move os (cc_main \<sigma>) \<sigma> = Some \<tau>" and "sent_inv s c0 \<sigma> cs n u" and "cc_calls \<sigma> = h0 @ cs" and "cc_socket \<sigma> = s"
    and "cc_main \<sigma> \<in> {M_shutdown, M_join, M_over} \<longrightarrow> \<not> g_running \<sigma>"
  shows "\<exists>ds m v. cc_calls \<tau> = h0 @ ds \<and> sent_inv s c0 \<tau> ds m v"
proof (cases "cc_main \<sigma>")
  case M_line
  obtain l c where line: "cinGetline BUFFER (cc_cin \<sigma>) = (l, c)" by fastforce
  then have "\<tau> = \<sigma>\<lparr>cc_cin := c, cc_main := M_got (c_str l)\<rparr>" using assms(1) M_line by (auto split: if_splits)
  then show ?thesis using assms(2-) M_line line
    by (intro exI [of _ cs] exI [of _ "Suc n"] exI [of _ "[c_str l]"]) (auto simp: sent_inv_def split: if_splits)
next
  case (M_send l)
  let ?cs = "if answer os (cc_calls \<sigma>) (Send s l) = SOCKET_ERROR then [Send s l, Cerr (''Send failed'' @ newline)] else [Send s l]"
  have "cc_calls \<tau> = h0 @ cs @ ?cs" using assms M_send by (auto simp: cc_emits_def split: if_splits)
  moreover have "sent_inv s c0 \<tau> (cs @ ?cs) n []"
    using assms M_send by (cases "answer os (h0 @ cs) (Send s l) = SOCKET_ERROR") (auto simp: sent_inv_def cc_emits_def stopped_def)
  ultimately show ?thesis by blast
next
  case M_prompt
  let ?cs = "if g_running \<sigma> then [Cout ''> ''] else []"
  have "cc_calls \<tau> = h0 @ cs @ ?cs" using assms M_prompt by (auto simp: cc_emits_def split: if_splits)
  moreover have "sent_inv s c0 \<tau> (cs @ ?cs) n u" using assms M_prompt by (auto simp: sent_inv_def cc_emits_def stopped_def split: if_splits)
  ultimately show ?thesis by blast
next
  case M_shutdown
  have "cc_calls \<tau> = h0 @ cs @ [Shutdown_send s]" using assms M_shutdown by (auto simp: cc_emits_def)
  moreover have "sent_inv s c0 \<tau> (cs @ [Shutdown_send s]) n u" using assms M_shutdown by (auto simp: sent_inv_def cc_emits_def stopped_def)
  ultimately show ?thesis by blast
next
  case M_join
  have "cc_calls \<tau> = h0 @ cs @ [Closesocket s, WSACleanup]" using assms M_join by (auto simp: cc_emits_def split: if_splits)
  moreover have "sent_inv s c0 \<tau> (cs @ [Closesocket s, WSACleanup]) n u"
    using assms M_join by (auto simp: sent_inv_def cc_emits_def stopped_def split: if_splits)
  ultimately show ?thesis by blast
qed (use assms in \<open>auto simp: sent_inv_def intro!: exI [of _ cs] exI [of _ n] exI [of _ u] split: if_splits\<close>)

lemma main_move_inv:
  assumes "main_move os (cc_main \<sigma>) \<sigma> = Some \<tau>" and "client_inv s c0 h0 \<sigma>"
  shows "client_inv s c0 h0 \<tau>"
proof -
  obtain cs n u where cs: "cc_calls \<sigma> = h0 @ cs" "sent_inv s c0 \<sigma> cs n u" "cc_socket \<sigma> = s"
    "cc_main \<sigma> \<in> {M_shutdown, M_join, M_over} \<longrightarrow> \<not> g_running \<sigma>"
    using assms(2) unfolding client_inv_sent_inv by blast
  have "cc_socket \<tau> = cc_socket \<sigma> \<and> cc_receiver \<tau> = cc_receiver \<sigma> \<and> (g_running \<tau> \<longrightarrow> g_running \<sigma>) \<and>
      (cc_main \<tau> \<in> {M_shutdown, M_join, M_over} \<longrightarrow> \<not> g_running \<tau>) \<and> (cc_main \<tau> = M_over \<longrightarrow> cc_receiver \<tau> = R_over)"
    using assms(1) cs(4) by (cases "cc_main \<sigma>") (auto simp: cc_emits_def split: if_splits prod.splits)
  then show ?thesis using main_move_sent [OF assms(1) cs(2,1,3,4)] assms(2) unfolding client_inv_sent_inv by auto
qed

text \<open>The receiver only writes to the console, clears the flag and moves on.\<close>

definition console :: "sys_call \<Rightarrow> bool" where
  "console c \<longleftrightarrow> (\<exists>t. c = Cout t \<or> c = Cerr t) \<or> c = WSAGetLastError"

lemma console_silent:
  assumes "list_all console cs"
  shows "responses cs = []" "count_list cs WSACleanup = 0" "count_list cs (Closesocket x) = 0"
  using assms by (induction cs) (auto simp: console_def)

lemma client_inv_receiver:
  assumes inv: "client_inv s c0 h0 \<sigma>" and over: "cc_receiver \<sigma> \<noteq> R_over" and silent: "list_all console cs"
    and running: "b \<longrightarrow> g_running \<sigma>" "r = R_over \<longrightarrow> \<not> b"
    and stop: "r = R_stop \<longrightarrow> stopped cs" "g_running \<sigma> \<and> \<not> b \<longrightarrow> cc_receiver \<sigma> = R_stop"
  shows "client_inv s c0 h0 ((cc_emits cs (\<sigma>\<lparr>cc_inbox := rs\<rparr>))\<lparr>g_running := b, cc_receiver := r\<rparr>)"
proof -
  obtain ds n u where ds: "cc_calls \<sigma> = h0 @ ds" "sent_inv s c0 \<sigma> ds n u" and pc: "cc_main \<sigma> \<noteq> M_over"
    using inv over unfolding client_inv_sent_inv by blast
  have "sent_inv s c0 ((cc_emits cs (\<sigma>\<lparr>cc_inbox := rs\<rparr>))\<lparr>g_running := b, cc_receiver := r\<rparr>) (ds @ cs) n u"
    using ds(2) pc running stop console_silent [OF silent] by (auto simp: sent_inv_def cc_emits_def stopped_def split: if_splits)
  moreover have "cc_calls ((cc_emits cs (\<sigma>\<lparr>cc_inbox := rs\<rparr>))\<lparr>g_running := b, cc_receiver := r\<rparr>) = h0 @ ds @ cs" using ds(1) by (simp add: cc_emits_def)
  ultimately show ?thesis
    using inv pc running unfolding client_inv_sent_inv by (auto simp: cc_emits_def)
qed

lemma recv_move_shape:
  assumes "recv_move (cc_receiver \<sigma>) \<sigma> = Some \<tau>"
  shows "\<exists>cs rs b pc. \<tau> = (cc_emits cs (\<sigma>\<lparr>cc_inbox := rs\<rparr>))\<lparr>g_running := b, cc_receiver := pc\<rparr> \<and> list_all console cs \<and>
      (b \<longrightarrow> g_running \<sigma>) \<and> (pc = R_over \<longrightarrow> \<not> b) \<and> (pc = R_stop \<longrightarrow> stopped cs) \<and> (g_running \<sigma> \<and> \<not> b \<longrightarrow> cc_receiver \<sigma> = R_stop)"
proof (cases "cc_receiver \<sigma>")
  case R_test
  then show ?thesis using assms by (intro exI [of _ "[]"] exI [of _ "cc_inbox \<sigma>"] exI [of _ "g_running \<sigma>"]) (auto simp: cc_emits_def)
next
  case R_recv
  then obtain r later where "cc_inbox \<sigma> = r # later" "\<tau> = recvAnswer r (\<sigma>\<lparr>cc_inbox := later\<rparr>)"
    using assms by (auto split: list.splits)
  moreover from this obtain cs pc where "\<tau> = (cc_emits cs (\<sigma>\<lparr>cc_inbox := later\<rparr>))\<lparr>cc_receiver := pc\<rparr>" "list_all console cs"
    "pc \<noteq> R_over" "pc = R_stop \<longrightarrow> stopped cs"
    by (cases r) (auto simp: console_def stopped_def)
  ultimately show ?thesis
    by (intro exI [of _ cs] exI [of _ later] exI [of _ "g_running \<sigma>"] exI [of _ pc]) (simp add: cc_emits_def)
next
  case R_prompt
  then show ?thesis using assms
    by (intro exI [of _ "if g_running \<sigma> then [Cout ''> ''] else []"] exI [of _ "cc_inbox \<sigma>"] exI [of _ "g_running \<sigma>"] exI [of _ R_test])
      (auto simp: cc_emits_def console_def)
next
  case R_stop
  then show ?thesis using assms
    by (intro exI [of _ "[]"] exI [of _ "cc_inbox \<sigma>"] exI [of _ False] exI [of _ R_test]) (auto simp: cc_emits_def)
qed (use assms in simp)

lemma recv_move_inv:
  assumes "recv_move (cc_receiver \<sigma>) \<sigma> = Some \<tau>" and "client_inv s c0 h0 \<sigma>"
  shows "client_inv s c0 h0 \<tau>"
proof -
  have over: "cc_receiver \<sigma> \<noteq> R_over" using assms(1) by auto
  show ?thesis using recv_move_shape [OF assms(1)] client_inv_receiver [OF assms(2) over] by blast
qed

lemma outside_inv:
  assumes "cc_outside \<sigma> \<tau>" and "client_inv s c0 h0 \<sigma>"
  shows "client_inv s c0 h0 \<tau>"
proof -
  have "client_inv s c0 h0 (\<sigma>\<lparr>cc_to_come := n\<rparr>) = client_inv s c0 h0 \<sigma>" for n
    by (cases \<sigma>) (simp only: client_inv_def chat_client.select_convs chat_client.update_convs)
  moreover have "client_inv s c0 h0 (\<sigma>\<lparr>cc_inbox := rs\<rparr>) = client_inv s c0 h0 \<sigma>" for rs
    by (cases \<sigma>) (simp only: client_inv_def chat_client.select_convs chat_client.update_convs)
  ultimately show ?thesis using assms by (auto elim!: cc_outside.cases)
qed

interpretation chat_client: step_invariant "cc_step os" "client_inv s c0 h0" for os s c0 h0
  by unfold_locales (auto elim!: cc_step.cases cc_move.cases intro: main_move_inv recv_move_inv outside_inv)

section \<open>Ending\<close>

fun main_work :: "main_pc \<Rightarrow> nat" where
  "main_work (M_send l) = 6"
| "main_work M_failed = 5"
| "main_work M_prompt = 4"
| "main_work M_test = 3"
| "main_work M_line = 4"
| "main_work (M_got l) = 3"
| "main_work M_exit = 3"
| "main_work M_shutdown = 2"
| "main_work M_join = 1"
| "main_work M_over = 0"

fun recv_work :: "receiver_pc \<Rightarrow> nat" where
  "recv_work R_recv = 3"
| "recv_work R_prompt = 2"
| "recv_work R_stop = 2"
| "recv_work R_test = 1"
| "recv_work R_over = 0"

definition cc_work :: "chat_client \<Rightarrow> nat" where
  "cc_work \<sigma> = main_work (cc_main \<sigma>) + recv_work (cc_receiver \<sigma>)"

lemma main_move_work:
  assumes "main_move os (cc_main \<sigma>) \<sigma> = Some \<tau>" and "\<not> g_running \<sigma>"
  shows "\<not> g_running \<tau> \<and> cc_work \<tau> < cc_work \<sigma>"
  using assms by (cases "cc_main \<sigma>") (auto simp: cc_work_def cc_emits_def split: if_splits prod.splits)

lemma recv_move_work:
  assumes "recv_move (cc_receiver \<sigma>) \<sigma> = Some \<tau>" and "\<not> g_running \<sigma>"
  shows "\<not> g_running \<tau> \<and> cc_work \<tau> < cc_work \<sigma>"
proof (cases "cc_receiver \<sigma>")
  case R_recv
  then obtain r later where "\<tau> = recvAnswer r (\<sigma>\<lparr>cc_inbox := later\<rparr>)" using assms(1) by (auto split: list.splits)
  then show ?thesis using R_recv assms(2) by (cases r) (auto simp: cc_work_def cc_emits_def)
qed (use assms in \<open>auto simp: cc_work_def cc_emits_def\<close>)

lemma cc_move_work: "cc_move os \<sigma> \<tau> \<Longrightarrow> \<not> g_running \<sigma> \<Longrightarrow> \<not> g_running \<tau> \<and> cc_work \<tau> < cc_work \<sigma>"
  by (auto elim!: cc_move.cases dest: main_move_work recv_move_work)

lemma cc_outside_still: "cc_outside\<^sup>*\<^sup>* \<sigma> \<tau> \<Longrightarrow> g_running \<tau> = g_running \<sigma> \<and> cc_work \<tau> = cc_work \<sigma>"
  by (induction rule: rtranclp_induct) (auto elim!: cc_outside.cases simp: cc_work_def)

interpretation client_moves: measured "cc_outside\<^sup>*\<^sup>* OO cc_move os" "\<lambda>\<sigma>. \<not> g_running \<sigma>" cc_work for os
  by unfold_locales (auto dest!: cc_outside_still dest: cc_move_work)

text \<open>What the calls wait for in which the threads stand is there.\<close>

definition cc_fed :: "chat_client \<Rightarrow> bool" where
  "cc_fed \<sigma> \<longleftrightarrow> (cc_main \<sigma> = M_line \<longrightarrow> line_ready \<sigma>) \<and> (cc_receiver \<sigma> = R_recv \<longrightarrow> cc_inbox \<sigma> \<noteq> [])"

lemma cc_move_fed:
  assumes "cc_move os \<sigma> \<tau>" and "\<not> g_running \<sigma>" and "cc_fed \<sigma>"
  shows "cc_fed \<tau>"
  using assms(1)
proof cases
  case main
  have "cc_main \<tau> \<noteq> M_line \<and> cc_receiver \<tau> = cc_receiver \<sigma> \<and> cc_inbox \<tau> = cc_inbox \<sigma>"
    using main assms(2) by (cases "cc_main \<sigma>") (auto simp: cc_emits_def split: if_splits prod.splits)
  then show ?thesis using assms(3) by (simp add: cc_fed_def)
next
  case receiver
  obtain cs rs b pc where \<tau>: "\<tau> = (cc_emits cs (\<sigma>\<lparr>cc_inbox := rs\<rparr>))\<lparr>g_running := b, cc_receiver := pc\<rparr>"
    using recv_move_shape [OF receiver] by blast
  have "cc_receiver \<tau> \<noteq> R_recv"
    using receiver assms(2) by (cases "cc_receiver \<sigma>"; cases "hd (cc_inbox \<sigma>)") (auto simp: cc_emits_def split: list.splits)
  then show ?thesis using assms(3) \<tau> by (auto simp: cc_fed_def line_ready_def cc_emits_def)
qed

text \<open>Where the client cannot move it has returned, or a thread stands in a call that waits.\<close>

lemma cc_stuck:
  assumes "\<nexists>\<tau>. cc_move os \<sigma> \<tau>"
  shows "cc_main \<sigma> = M_over \<or> cc_main \<sigma> = M_line \<and> \<not> line_ready \<sigma> \<or> cc_main \<sigma> = M_join \<and> cc_receiver \<sigma> = R_recv \<and> cc_inbox \<sigma> = []"
proof -
  have "main_move os (cc_main \<sigma>) \<sigma> = None" "recv_move (cc_receiver \<sigma>) \<sigma> = None"
    using assms by (metis option.exhaust cc_move.main, metis option.exhaust cc_move.receiver)
  then show ?thesis by (cases "cc_main \<sigma>"; cases "cc_receiver \<sigma>") (auto split: if_splits prod.splits list.splits)
qed

interpretation client_leaves: progress "cc_move os" "\<lambda>\<sigma>. \<not> g_running \<sigma> \<and> cc_fed \<sigma>" "\<lambda>\<sigma>. cc_main \<sigma> = M_over" cc_work for os
proof unfold_locales
  show "\<exists>\<tau>. cc_move os \<sigma> \<tau>" if "\<not> g_running \<sigma> \<and> cc_fed \<sigma>" "cc_main \<sigma> \<noteq> M_over" for \<sigma>
    using cc_stuck [of os \<sigma>] that by (auto simp: cc_fed_def)
qed (simp_all add: cc_move_work cc_move_fed)

section \<open>Past the end of the input\<close>

text \<open>Moves of the main thread alone.\<close>

fun main_moves :: "winsock \<Rightarrow> nat \<Rightarrow> chat_client \<Rightarrow> chat_client option" where
  "main_moves os 0 \<sigma> = Some \<sigma>"
| "main_moves os (Suc n) \<sigma> = (case main_move os (cc_main \<sigma>) \<sigma> of None \<Rightarrow> None | Some \<tau> \<Rightarrow> main_moves os n \<tau>)"

lemma main_moves_steps: "main_moves os n \<sigma> = Some \<tau> \<Longrightarrow> (cc_step os)\<^sup>*\<^sup>* \<sigma> \<tau>"
  by (induction n arbitrary: \<sigma>) (auto split: option.splits intro: cc_move.main cc_step.own converse_rtranclp_into_rtranclp)

text \<open>
  A stream that has failed is not noticed: the client goes round and round sending nothing, as long
  as that succeeds.
\<close>

definition spun :: "nat \<Rightarrow> chat_client \<Rightarrow> chat_client" where
  "spun n \<sigma> = cc_emits (concat (replicate n [Send (cc_socket \<sigma>) [], Cout ''> ''])) \<sigma>"

lemma chat_client_spins:
  assumes "cc_main \<sigma> = M_test" "g_running \<sigma>" "\<not> good (cc_cin \<sigma>)" and "sends os (cc_socket \<sigma>)"
  shows "(cc_step os)\<^sup>*\<^sup>* \<sigma> (spun n \<sigma>)"
proof (induction n)
  case 0
  show ?case by (simp add: spun_def cc_emits_def)
next
  case (Suc n)
  have "main_moves os 5 (spun n \<sigma>) = Some (spun (Suc n) \<sigma>)"
    using assms
    by (simp add: numeral_eq_Suc spun_def cc_emits_def line_ready_def cinGetline_def c_str_def sends_def replicate_append_same [symmetric])
  with Suc.IH show ?case by (meson main_moves_steps rtranclp_trans)
qed

text \<open>A client in which Bob types.\<close>

definition bob_types :: cin where
  "bob_types = \<lparr>pending = ''bob'' @ LFC # ''hi'' @ LFC # ''exit'', good = True\<rparr>"

definition bob_hello :: history where
  "bob_hello = [WSAStartup, Socket, Cout (''Connecting to server...'' @ newline), Connect 5 ''127.0.0.1'' 8080,
     Cout (''Connected to server!'' @ newline @ newline), Cout ''Enter your nickname: '', Send 5 ''bob'',
     Cout (''Type messages (type '' @ [CHR 0x27] @ ''exit'' @ [CHR 0x27] @ '' to quit):'' @ newline), Cout ''> '']"

text \<open>What is outside can let the next characters of the input be typed.\<close>

lemma types_steps: "cc_to_come \<sigma> = n + k \<Longrightarrow> (cc_step os)\<^sup>*\<^sup>* \<sigma> (\<sigma>\<lparr>cc_to_come := n\<rparr>)"
proof (induction k arbitrary: n)
  case (Suc k)
  have "(cc_step os)\<^sup>*\<^sup>* \<sigma> (\<sigma>\<lparr>cc_to_come := Suc n\<rparr>)" using Suc.IH [of "Suc n"] Suc.prems by simp
  moreover have "cc_outside (\<sigma>\<lparr>cc_to_come := Suc n\<rparr>) (\<sigma>\<lparr>cc_to_come := n\<rparr>)" using cc_outside.types [of "\<sigma>\<lparr>cc_to_come := Suc n\<rparr>" n] by simp
  ultimately show ?case by (meson cc_step.outside rtranclp.rtrancl_into_rtrancl)
qed simp

lemma bob_client:
  "\<exists>\<sigma>0 \<sigma>. chatClientStart okWinsock bob_types [] = Inr \<sigma>0 \<and> (cc_step okWinsock)\<^sup>*\<^sup>* \<sigma>0 \<sigma> \<and> cc_socket \<sigma>0 = 5 \<and>
     cc_cin \<sigma>0 = \<lparr>pending = ''hi'' @ LFC # ''exit'', good = True\<rparr> \<and> cc_calls \<sigma>0 = bob_hello \<and> cc_calls \<sigma> = bob_hello @ [Send 5 ''hi'']"
proof -
  obtain \<sigma>0 where start: "chatClientStart okWinsock bob_types [] = Inr \<sigma>0" "cc_socket \<sigma>0 = 5"
    "cc_cin \<sigma>0 = \<lparr>pending = ''hi'' @ LFC # ''exit'', good = True\<rparr>" "cc_main \<sigma>0 = M_test" "g_running \<sigma>0" "cc_calls \<sigma>0 = bob_hello"
    "cc_to_come \<sigma>0 = 8"
    by (simp add: chatClientStart_def okWinsock_def Let_def bob_types_def bob_hello_def cinGetline_def LFC_def c_str_def
      INVALID_SOCKET_def SOCKET_ERROR_def)
  have typed: "(cc_step okWinsock)\<^sup>*\<^sup>* \<sigma>0 (\<sigma>0\<lparr>cc_to_come := 5\<rparr>)" using types_steps [of \<sigma>0 5 3] start(7) by simp
  have "\<exists>\<sigma>. main_moves okWinsock 4 (\<sigma>0\<lparr>cc_to_come := 5\<rparr>) = Some \<sigma> \<and> cc_calls \<sigma> = cc_calls \<sigma>0 @ [Send 5 ''hi'']"
    using start(2-5) by (simp add: numeral_eq_Suc line_ready_def cinGetline_def LFC_def c_str_def BUFFER_def cc_emits_def okWinsock_def SOCKET_ERROR_def)
  then obtain \<sigma> where "(cc_step okWinsock)\<^sup>*\<^sup>* \<sigma>0 \<sigma>" "cc_calls \<sigma> = cc_calls \<sigma>0 @ [Send 5 ''hi'']"
    using main_moves_steps rtranclp_trans [OF typed] by blast
  with start show ?thesis by auto
qed

text \<open>What the start has sent.\<close>

lemma chatClientStart_sent:
  assumes "chatClientStart os c h = Inr \<sigma>"
  shows "responses (cc_calls \<sigma>) = responses h @ [(cc_socket \<sigma>, c_str (fst (cinGetline 256 c)))] \<and> cc_cin \<sigma> = snd (cinGetline 256 c)"
  using assms by (auto simp: chatClientStart_def Let_def split: if_splits prod.splits)

section \<open>Properties\<close>

lemma chatClientStart_inv:
  assumes "chatClientStart os c h = Inr \<sigma>"
  shows "client_inv (cc_socket \<sigma>) (cc_cin \<sigma>) (cc_calls \<sigma>) \<sigma>"
proof -
  have "cc_main \<sigma> = M_test \<and> cc_receiver \<sigma> = R_test"
    using assms by (auto simp: chatClientStart_def Let_def split: if_splits prod.splits)
  moreover have "g_running \<sigma>" using assms by (auto simp: chatClientStart_def Let_def split: if_splits prod.splits)
  ultimately show ?thesis unfolding client_inv_def
    by (intro conjI exI [of _ "[]"] exI [of _ 0]) simp_all
qed

text \<open>The lines sent, those read and not sent, and what is closed.\<close>

lemma client_inv_lines:
  assumes "client_inv s c0 h0 \<sigma>"
  shows "\<exists>cs n sent unsent. cc_calls \<sigma> = h0 @ cs \<and> responses cs = map (Pair s) sent \<and>
    typed_lines n c0 = (sent @ unsent, cc_cin \<sigma>) \<and> length unsent \<le> 1 \<and> ''exit'' \<notin> set sent \<and>
    (cc_main \<sigma> \<in> {M_test, M_line, M_failed, M_prompt} \<longrightarrow> unsent = []) \<and>
    (cc_main \<sigma> \<in> {M_shutdown, M_join, M_over} \<and> \<not> stopped cs \<longrightarrow> unsent = [''exit'']) \<and>
    (if cc_main \<sigma> = M_over then cc_receiver \<sigma> = R_over \<and> count_list cs (Closesocket s) = 1 \<and> count_list cs WSACleanup = 1
     else count_list cs (Closesocket s) = 0 \<and> count_list cs WSACleanup = 0)"
proof -
  from assms obtain cs n u where cs: "cc_calls \<sigma> = h0 @ cs" "sent_inv s c0 \<sigma> cs n u"
    and pc: "cc_main \<sigma> \<in> {M_shutdown, M_join, M_over} \<longrightarrow> \<not> g_running \<sigma>" "cc_main \<sigma> = M_over \<longrightarrow> cc_receiver \<sigma> = R_over"
    unfolding client_inv_sent_inv by blast
  have to: "fst x = s" if "x \<in> set (responses cs)" for x using cs(2) that unfolding sent_inv_def by auto
  have "map (\<lambda>x. (s, snd x)) (responses cs) = responses cs" by (rule map_idI) (use to in \<open>metis prod.collapse\<close>)
  then have "responses cs = map (Pair s) (map snd (responses cs))" by (simp add: comp_def)
  moreover have "''exit'' \<notin> set (map snd (responses cs))" "typed_lines n c0 = (map snd (responses cs) @ u, cc_cin \<sigma>)"
    using cs(2) unfolding sent_inv_def by auto
  moreover have "length u \<le> 1" using cs(2) unfolding sent_inv_def by (cases "cc_main \<sigma>") auto
  moreover have "cc_main \<sigma> \<in> {M_test, M_line, M_failed, M_prompt} \<longrightarrow> u = []" using cs(2) unfolding sent_inv_def by auto
  moreover have "cc_main \<sigma> \<in> {M_shutdown, M_join, M_over} \<and> \<not> stopped cs \<longrightarrow> u = [''exit'']"
    using cs(2) pc(1) unfolding sent_inv_def by auto
  moreover have "if cc_main \<sigma> = M_over then cc_receiver \<sigma> = R_over \<and> count_list cs (Closesocket s) = 1 \<and> count_list cs WSACleanup = 1
     else count_list cs (Closesocket s) = 0 \<and> count_list cs WSACleanup = 0"
    using cs(2) pc(2) unfolding sent_inv_def by auto
  ultimately show ?thesis using cs(1) by blast
qed

lemma client_inv_sent:
  assumes "client_inv s c0 h0 \<sigma>"
  shows "\<exists>cs n. cc_calls \<sigma> = h0 @ cs \<and>
    responses cs = map (Pair s) (fst (typed_lines n c0)) \<and> ''exit'' \<notin> set (fst (typed_lines n c0))"
proof -
  obtain cs n sent unsent where cs: "cc_calls \<sigma> = h0 @ cs" "responses cs = map (Pair s) sent"
    "typed_lines n c0 = (sent @ unsent, cc_cin \<sigma>)" "length unsent \<le> 1" "''exit'' \<notin> set sent"
    using client_inv_lines [OF assms] by blast
  have "\<exists>m. sent = fst (typed_lines m c0)"
  proof (cases unsent)
    case Nil
    then show ?thesis using cs(3) by (metis append_Nil2 fst_conv)
  next
    case (Cons l ls)
    then show ?thesis using cs(3,4) typed_lines_snoc by auto
  qed
  with cs show ?thesis by blast
qed

lemmas client_run_sent = client_inv_sent [OF chat_client.I_steps [OF _ chatClientStart_inv]]

lemmas client_run_lines = client_inv_lines [OF chat_client.I_steps [OF _ chatClientStart_inv]]

text \<open>
  C23. After the nickname, on every interleaving of its two threads and of what comes from outside,
  the chat client has called \<open>send\<close>, all on its own socket, for exactly the lines that \<open>getline\<close> has
  given it so far, in order and once each, except at most the last one, and never for \<open>exit\<close>: none
  is left out while the main thread is back at the loop or in \<open>getline\<close>; and when it has left the
  loop without having shown a failed send, an end of the connection or a Winsock error, the one line
  it has read and not sent is \<open>exit\<close>. The socket is closed and Winsock ended once, after both
  threads are through.
\<close>

theorem chat_client_sends:
  assumes "chatClientStart os c h = Inr \<sigma>0" and "(cc_step os)\<^sup>*\<^sup>* \<sigma>0 \<sigma>"
  shows "\<exists>cs n sent unsent. cc_calls \<sigma> = cc_calls \<sigma>0 @ cs \<and> responses cs = map (Pair (cc_socket \<sigma>0)) sent \<and>
    typed_lines n (cc_cin \<sigma>0) = (sent @ unsent, cc_cin \<sigma>) \<and> length unsent \<le> 1 \<and> ''exit'' \<notin> set sent \<and>
    (cc_main \<sigma> \<in> {M_test, M_line, M_failed, M_prompt} \<longrightarrow> unsent = []) \<and>
    (cc_main \<sigma> \<in> {M_shutdown, M_join, M_over} \<and> \<not> stopped cs \<longrightarrow> unsent = [''exit'']) \<and>
    (if cc_main \<sigma> = M_over then cc_receiver \<sigma> = R_over \<and> count_list cs (Closesocket (cc_socket \<sigma>0)) = 1 \<and> count_list cs WSACleanup = 1
     else count_list cs (Closesocket (cc_socket \<sigma>0)) = 0 \<and> count_list cs WSACleanup = 0)"
  by (rule client_run_lines [OF assms(2,1)])

text \<open>
  C24. Once \<open>g_running\<close> is cleared, by \<open>exit\<close>, by a failed send or by the server, the threads of the
  chat client make at most nine more steps, whatever comes from outside between them; and where they
  can make none, the client has returned, or its main thread stands in \<open>getline\<close> with no whole line
  typed, or it joins the receiver, which stands in \<open>recv\<close> with nothing there. If what the threads
  wait for is there when the flag is cleared, the client returns on every schedule.
\<close>

theorem chat_client_ends:
  assumes "\<not> g_running \<sigma>"
  shows "(\<forall>k \<tau>. ((cc_outside\<^sup>*\<^sup>* OO cc_move os) ^^ k) \<sigma> \<tau> \<longrightarrow> k \<le> 9) \<and>
    (\<forall>\<tau>. (cc_step os)\<^sup>*\<^sup>* \<sigma> \<tau> \<longrightarrow> (\<exists>\<upsilon>. cc_move os \<tau> \<upsilon>) \<or> cc_main \<tau> = M_over \<or>
      cc_main \<tau> = M_line \<and> \<not> line_ready \<tau> \<or> cc_main \<tau> = M_join \<and> cc_receiver \<tau> = R_recv \<and> cc_inbox \<tau> = []) \<and>
    (cc_fed \<sigma> \<longrightarrow> (\<exists>\<tau>. (cc_move os)\<^sup>*\<^sup>* \<sigma> \<tau> \<and> cc_main \<tau> = M_over) \<and>
      (\<forall>\<tau>. (cc_move os)\<^sup>*\<^sup>* \<sigma> \<tau> \<longrightarrow> (\<exists>\<upsilon>. cc_move os \<tau> \<upsilon>) \<or> cc_main \<tau> = M_over))"
proof (intro conjI allI impI)
  have "main_work m \<le> 6" "recv_work r \<le> 3" for m r by (cases m; simp) (cases r; simp)
  then have "cc_work \<sigma> \<le> 6 + 3" unfolding cc_work_def by (rule add_mono)
  then show "k \<le> 9" if "((cc_outside\<^sup>*\<^sup>* OO cc_move os) ^^ k) \<sigma> \<tau>" for k \<tau>
    using client_moves.steps_bounded [OF that assms] by linarith
  show "(\<exists>\<upsilon>. cc_move os \<tau> \<upsilon>) \<or> cc_main \<tau> = M_over \<or>
      cc_main \<tau> = M_line \<and> \<not> line_ready \<tau> \<or> cc_main \<tau> = M_join \<and> cc_receiver \<tau> = R_recv \<and> cc_inbox \<tau> = []" for \<tau>
    using cc_stuck by blast
  assume "cc_fed \<sigma>"
  then have I: "\<not> g_running \<sigma> \<and> cc_fed \<sigma>" using assms by simp
  show "\<exists>\<tau>. (cc_move os)\<^sup>*\<^sup>* \<sigma> \<tau> \<and> cc_main \<tau> = M_over" by (rule client_leaves.reaches_goal [OF I])
  show "(\<exists>\<upsilon>. cc_move os \<tau> \<upsilon>) \<or> cc_main \<tau> = M_over" if "(cc_move os)\<^sup>*\<^sup>* \<sigma> \<tau>" for \<tau>
    using client_leaves.every_run_ends [OF I that] by blast
qed

text \<open>
  A client whose server has closed the connection while the user has typed half a line: it stays in
  \<open>getline\<close> until the line feed is typed, then returns.
\<close>

definition half_line :: "nat \<Rightarrow> chat_client" where
  "half_line n = \<lparr>cc_socket = 5, g_running = False, cc_cin = \<lparr>pending = ''hi'' @ [LFC], good = True\<rparr>, cc_to_come = n,
     cc_inbox = [], cc_main = M_line, cc_receiver = R_test, cc_calls = []\<rparr>"

theorem chat_client_ends_witness:
  "(\<forall>\<tau>. main_move okWinsock M_line (half_line 2) \<noteq> Some \<tau>) \<and> cc_outside (half_line 2) (half_line 1) \<and>
   (\<exists>\<tau>. (cc_move okWinsock)\<^sup>*\<^sup>* (half_line 1) \<tau> \<and> cc_main \<tau> = M_over)"
proof (intro conjI allI)
  show "main_move okWinsock M_line (half_line 2) \<noteq> Some \<tau>" for \<tau>
    by (simp add: half_line_def line_ready_def LFC_def BUFFER_def)
  show "cc_outside (half_line 2) (half_line 1)" using cc_outside.types [of "half_line 2" 1] by (simp add: half_line_def)
  have "\<not> g_running (half_line 1)" by (simp add: half_line_def)
  moreover have "cc_fed (half_line 1)" by (simp add: half_line_def cc_fed_def line_ready_def LFC_def)
  ultimately show "\<exists>\<tau>. (cc_move okWinsock)\<^sup>*\<^sup>* (half_line 1) \<tau> \<and> cc_main \<tau> = M_over" using chat_client_ends by blast
qed

theorem chat_client_sends_witness:
  "\<exists>(\<sigma> :: chat_client) cs n unsent. responses cs = map (Pair 5) [''hi''] \<and> cc_calls \<sigma> = bob_hello @ cs \<and>
     typed_lines n \<lparr>pending = ''hi'' @ LFC # ''exit'', good = True\<rparr> = (''hi'' # unsent, cc_cin \<sigma>)"
proof -
  obtain \<sigma>0 \<sigma> where run: "chatClientStart okWinsock bob_types [] = Inr \<sigma>0" "(cc_step okWinsock)\<^sup>*\<^sup>* \<sigma>0 \<sigma>"
    "cc_socket \<sigma>0 = 5" "cc_cin \<sigma>0 = \<lparr>pending = ''hi'' @ LFC # ''exit'', good = True\<rparr>" "cc_calls \<sigma>0 = bob_hello"
    "cc_calls \<sigma> = bob_hello @ [Send 5 ''hi'']" using bob_client by blast
  obtain cs n sent unsent where cs: "cc_calls \<sigma> = cc_calls \<sigma>0 @ cs" "responses cs = map (Pair 5) sent"
    "typed_lines n (cc_cin \<sigma>0) = (sent @ unsent, cc_cin \<sigma>)" using chat_client_sends [OF run(1,2)] unfolding run(3) by blast
  then have "cs = [Send 5 ''hi'']" using run(5,6) by simp
  then have "sent = [''hi'']" using cs(2) by (cases sent) auto
  with cs run(4,5) show ?thesis by (intro exI [of _ \<sigma>] exI [of _ cs] exI [of _ n] exI [of _ unsent]) simp
qed

end
