(* ===== verification/Chat_Session.thy ===== *)
theory Chat_Session
  imports Chat_Props Chat_Client_Thms "HOL-Library.Sublist"
begin

text \<open>
  The chat client and the chat server together: what one client types is what another is sent,
  provided that each message of the client arrives in one receive; and that nothing provides it,
  since the server takes whatever one receive returns for a message.
\<close>

section \<open>What one member says\<close>

fun says_of :: "SOCKET \<Rightarrow> room_event list \<Rightarrow> string list" where
  "says_of s [] = []"
| "says_of s (Says t d # es) = (if t = s then d # says_of s es else says_of s es)"
| "says_of s (_ # es) = says_of s es"

text \<open>Neither of two members leaves, and the room is not closed.\<close>

definition both_stay :: "SOCKET \<Rightarrow> SOCKET \<Rightarrow> room_event \<Rightarrow> bool" where
  "both_stay s t e \<longleftrightarrow> e \<noteq> Leaves s \<and> e \<noteq> Leaves t \<and> e \<noteq> Closes"

section \<open>Names in the room\<close>

lemma map_of_set_name:
  "map_of (set_name u m r) s = (if s = u then map_option (\<lambda>_. Some m) (map_of r s) else map_of r s)"
  by (induction r) (auto simp: set_name_def)

lemma map_of_leave: "map_of (filter (\<lambda>(t, n). t \<noteq> u) r) s = (if s = u then None else map_of r s)"
  by (induction r) auto

lemma name_kept:
  assumes "name_of r s = Some n" "e \<noteq> Leaves s" "e \<noteq> Closes"
  shows "name_of (fst (room_spec e r)) s = Some n"
proof -
  have s: "map_of r s = Some (Some n)" using assms(1) by (auto simp: name_of_def split: option.splits)
  show ?thesis
  proof (cases e)
    case (Joins u)
    then show ?thesis using s by (simp add: name_of_def map_of_append map_add_def)
  next
    case (Says u m)
    then show ?thesis using s assms(1) by (cases "name_of r u") (auto simp: name_of_def map_of_set_name)
  next
    case (Leaves u)
    then show ?thesis using s assms(2) by (auto simp: name_of_def map_of_leave)
  qed (use s assms(3) in \<open>auto simp: name_of_def\<close>)
qed

lemma named_by_first:
  assumes "name_of r s = None" "s \<in> set (map fst r)"
  shows "name_of (fst (room_spec (Says s d) r)) s = Some d"
proof -
  have "map_of r s \<noteq> None" using assms(2) by (simp add: map_of_eq_None_iff)
  then show ?thesis using assms(1) by (auto simp: name_of_def map_of_set_name)
qed

lemma waiting_kept:
  assumes "name_of r s = None" "s \<in> set (map fst r)" "e \<noteq> Leaves s" "e \<noteq> Closes" "\<forall>d. e \<noteq> Says s d"
  shows "name_of (fst (room_spec e r)) s = None \<and> s \<in> set (map fst (fst (room_spec e r)))"
proof -
  obtain n where "map_of r s = Some n" using assms(2) by (metis map_of_eq_None_iff not_None_eq list.set_map)
  then have s: "map_of r s = Some None" using assms(1) by (simp add: name_of_def)
  have "map_of (fst (room_spec e r)) s = Some None"
  proof (cases e)
    case (Joins u)
    then show ?thesis using s by (simp add: map_of_append map_add_def)
  next
    case (Says u m)
    then show ?thesis using s assms(5) by (cases "name_of r u") (auto simp: map_of_set_name)
  next
    case (Leaves u)
    then show ?thesis using s assms(3) by (auto simp: map_of_leave)
  qed (use s assms(4) in auto)
  then show ?thesis by (auto simp: name_of_def dest: map_of_SomeD intro: rev_image_eqI)
qed

lemma member_named: "name_of r t = Some n \<Longrightarrow> t \<in> set (members r)"
  by (auto simp: name_of_def members_def image_iff dest!: map_of_SomeD split: option.splits intro!: bexI)

section \<open>What another is sent\<close>

definition spoken :: "string \<Rightarrow> string \<Rightarrow> string" where
  "spoken nick m = nick @ '': '' @ m @ newline"

lemma heard_by_member:
  assumes "name_of r s = Some nick" "name_of r t = Some n" "s \<noteq> t"
  shows "spoken nick d \<in> set (sent_to t (snd (room_spec (Says s d) r)))"
proof -
  have "t \<in> set (filter (\<lambda>u. u \<noteq> s) (members r))" using member_named [OF assms(2)] assms(3) by simp
  then have "(t, spoken nick d) \<in> set (to_all (spoken nick d) (filter (\<lambda>u. u \<noteq> s) (members r)))"
    unfolding to_all_def set_map by (rule imageI)
  then show ?thesis using assms(1) by (auto simp: sent_to_def spoken_def image_iff intro!: bexI)
qed

text \<open>While both stay, everything that one says is sent to the other, in order.\<close>

lemma says_delivered:
  assumes "list_all (both_stay s t) es" "s \<noteq> t" "name_of r s = Some nick" "name_of r t = Some n"
  shows "name_of (fst (machine_run room_spec es r)) s = Some nick \<and>
    subseq (map (spoken nick) (says_of s es)) (sent_to t (snd (machine_run room_spec es r)))"
  using assms
proof (induction es arbitrary: r)
  case (Cons e es)
  obtain r1 xs where e: "room_spec e r = (r1, xs)" by fastforce
  have stay: "e \<noteq> Leaves s" "e \<noteq> Leaves t" "e \<noteq> Closes" using Cons.prems(1) by (simp_all add: both_stay_def)
  have r1: "name_of r1 s = Some nick" "name_of r1 t = Some n"
    using name_kept [OF Cons.prems(3) stay(1,3)] name_kept [OF Cons.prems(4) stay(2,3)] e by simp_all
  have IH: "name_of (fst (machine_run room_spec es r1)) s = Some nick"
    "subseq (map (spoken nick) (says_of s es)) (sent_to t (snd (machine_run room_spec es r1)))"
    using Cons.IH [OF _ Cons.prems(2) r1] Cons.prems(1) by simp_all
  have one: "subseq (map (spoken nick) (says_of s [e])) (sent_to t xs)"
  proof (cases "\<exists>d. e = Says s d")
    case True
    then obtain d where d: "e = Says s d" ..
    have "spoken nick d \<in> set (sent_to t xs)"
      using heard_by_member [OF Cons.prems(3,4,2), of d] e d by simp
    then show ?thesis using d by (simp add: subseq_singleton_left)
  next
    case False
    then have "says_of s [e] = []" by (cases e) auto
    then show ?thesis by simp
  qed
  have "says_of s (e # es) = says_of s [e] @ says_of s es" by (cases e) auto
  moreover obtain r2 ys where "machine_run room_spec es r1 = (r2, ys)" by fastforce
  ultimately show ?case
    using IH list_emb_append_mono [OF one IH(2)] e by simp
qed simp

text \<open>The first thing somebody says is the name, the rest is sent on.\<close>

lemma session_delivered:
  assumes "list_all (both_stay s t) es" "s \<noteq> t" "name_of r s = None" "s \<in> set (map fst r)" "name_of r t = Some n"
    and "says_of s es = nick # ms"
  shows "name_of (fst (machine_run room_spec es r)) s = Some nick \<and>
    subseq (map (spoken nick) ms) (sent_to t (snd (machine_run room_spec es r)))"
  using assms
proof (induction es arbitrary: r)
  case (Cons e es)
  obtain r1 xs where e: "room_spec e r = (r1, xs)" by fastforce
  have stay: "e \<noteq> Leaves s" "e \<noteq> Leaves t" "e \<noteq> Closes" using Cons.prems(1) by (simp_all add: both_stay_def)
  have rest: "list_all (both_stay s t) es" using Cons.prems(1) by simp
  have t: "name_of r1 t = Some n" using name_kept [OF Cons.prems(5) stay(2,3)] e by simp
  have "name_of (fst (machine_run room_spec es r1)) s = Some nick \<and>
      subseq (map (spoken nick) ms) (sent_to t (snd (machine_run room_spec es r1)))"
  proof (cases "\<exists>d. e = Says s d")
    case True
    then have d: "e = Says s nick" "says_of s es = ms" using Cons.prems(6) by auto
    have "name_of r1 s = Some nick" using named_by_first [OF Cons.prems(3,4), of nick] d(1) e by simp
    from says_delivered [OF rest Cons.prems(2) this t] show ?thesis unfolding d(2) .
  next
    case False
    then have says: "says_of s es = nick # ms" using Cons.prems(6) by (cases e) auto
    have "name_of r1 s = None" "s \<in> set (map fst r1)"
      using waiting_kept [OF Cons.prems(3,4) stay(1,3)] False e by auto
    from Cons.IH [OF rest Cons.prems(2) this t says] show ?thesis .
  qed
  moreover obtain r2 ys where "machine_run room_spec es r1 = (r2, ys)" by fastforce
  ultimately show ?case using e by (simp add: list_emb_append2)
qed simp

section \<open>The same bytes, cut differently\<close>

lemma framing_runs:
  assumes "\<And>h c k. answer os h (Associate c k) \<noteq> 0" "\<And>h c. answer os h (WSARecv c) = 0"
    and "a \<noteq> []" "b \<noteq> []" "length (a @ b) \<le> BUFFER_SIZE"
  shows "\<exists>es \<sigma>. play os [Accept 5 1, Prompt, Post, Work 1 True a, Work 1 True b] (chat_started s io h) = Some (es, \<sigma>) \<and>
      says_of 5 es = [a, b] \<and> room_of (chat \<sigma>) = [(5, Some a)]"
    and "\<exists>es \<sigma>. play os [Accept 5 1, Prompt, Post, Work 1 True (a @ b)] (chat_started s io h) = Some (es, \<sigma>) \<and>
      says_of 5 es = [a @ b] \<and> room_of (chat \<sigma>) = [(5, Some (a @ b))]"
  using assms by (simp_all add: play_simps room_of_def)

section \<open>Properties\<close>

text \<open>
  C6. A chat session from one end to the other, on every interleaving of the client's two threads
  and of the server's: when each message of a client has arrived in one receive, the client's
  socket has the nickname typed first, and every line typed after it that is not empty has been
  sent to every member of the room who stayed, behind the nickname and in the order of typing.
\<close>

theorem chat_session:
  assumes client: "chatClientStart oc c [] = Inr \<kappa>0" "(cc_step oc)\<^sup>*\<^sup>* \<kappa>0 \<kappa>"
    and server: "labelled_run (chat_step os) (chat_started s0 io h) es \<sigma>" "labelled_run (chat_step os) \<sigma> fs \<tau>"
    and room: "s \<in> set (map fst (room_of (chat \<sigma>)))" "name_of (room_of (chat \<sigma>)) s = None"
      "name_of (room_of (chat \<sigma>)) t = Some n" "s \<noteq> t" "list_all (both_stay s t) fs"
    and arrives: "says_of s fs = filter (\<lambda>m. m \<noteq> []) (map snd (responses (cc_calls \<kappa>)))"
    and nick: "nick = c_str (fst (cinGetline 256 c))" "nick \<noteq> []"
  shows "\<exists>k xs. map snd (responses (cc_calls \<kappa>)) = nick # fst (typed_lines k (cc_cin \<kappa>0)) \<and>
    responses (chat_calls (chat \<tau>)) = responses (chat_calls (chat \<sigma>)) @ xs \<and> name_of (room_of (chat \<tau>)) s = Some nick \<and>
    subseq (map (spoken nick) (filter (\<lambda>m. m \<noteq> []) (fst (typed_lines k (cc_cin \<kappa>0))))) (sent_to t xs)"
proof -
  obtain cs k where cs: "cc_calls \<kappa> = cc_calls \<kappa>0 @ cs" "responses cs = map (Pair (cc_socket \<kappa>0)) (fst (typed_lines k (cc_cin \<kappa>0)))"
    using client_run_sent [OF client(2,1)] by blast
  have sent: "map snd (responses (cc_calls \<kappa>)) = nick # fst (typed_lines k (cc_cin \<kappa>0))"
    using cs chatClientStart_sent [OF client(1)] nick(1) by (simp add: comp_def)
  have inv: "chat_inv \<sigma>" by (rule room.I_run [OF server(1) chat_started_inv(1)])
  obtain xs where xs: "machine_run room_spec fs (room_of (chat \<sigma>)) = (room_of (chat \<tau>), xs)"
    "responses (chat_calls (chat \<tau>)) = responses (chat_calls (chat \<sigma>)) @ xs" using room.refines [OF server(2) inv] by blast
  have "says_of s fs = nick # filter (\<lambda>m. m \<noteq> []) (fst (typed_lines k (cc_cin \<kappa>0)))" using arrives nick(2) unfolding sent by simp
  from session_delivered [OF room(5,4,2,1,3) this] xs sent show ?thesis by (intro exI [of _ k] exI [of _ xs]) simp
qed

theorem chat_session_witness:
  "\<exists>(\<kappa> :: chat_client) (\<tau> :: chat_sys). map snd (responses (cc_calls \<kappa>)) = [''bob'', ''hi''] \<and> name_of (room_of (chat \<tau>)) 5 = Some ''bob'' \<and>
     subseq [''bob: hi'' @ newline] (sent_to 6 (responses (chat_calls (chat \<tau>))))"
proof -
  obtain \<kappa>0 \<kappa> where client: "chatClientStart okWinsock bob_types [] = Inr \<kappa>0" "(cc_step okWinsock)\<^sup>*\<^sup>* \<kappa>0 \<kappa>"
    "cc_calls \<kappa> = bob_hello @ [Send 5 ''hi'']" using bob_client by blast
  let ?os = "chatWinsock (\<lambda>h. False)"
  have "\<exists>es \<sigma> fs \<tau>. play ?os [Accept 6 2, Prompt, Post, Work 2 True ''eve'', Accept 5 1] (chat_started 3 4 []) = Some (es, \<sigma>) \<and>
      play ?os [Prompt, Post, Work 1 True ''bob'', Work 1 True ''hi''] \<sigma> = Some (fs, \<tau>) \<and>
      room_of (chat \<sigma>) = [(6, Some ''eve''), (5, None)] \<and> fs = [Prompts 5, Says 5 ''bob'', Says 5 ''hi'']"
    by (simp add: play_simps room_of_def)
  then obtain es \<sigma> fs \<tau> where run: "labelled_run (chat_step ?os) (chat_started 3 4 []) es \<sigma>" "labelled_run (chat_step ?os) \<sigma> fs \<tau>"
    and room: "room_of (chat \<sigma>) = [(6, Some ''eve''), (5, None)]" and fs: "fs = [Prompts 5, Says 5 ''bob'', Says 5 ''hi'']"
    using play_run by blast
  have calls: "map snd (responses (cc_calls \<kappa>)) = [''bob'', ''hi'']" by (simp add: client(3) bob_hello_def)
  have nick: "''bob'' = c_str (fst (cinGetline 256 bob_types))" by (simp add: bob_types_def cinGetline_def LFC_def c_str_def)
  have here: "5 \<in> set (map fst (room_of (chat \<sigma>)))" "name_of (room_of (chat \<sigma>)) 5 = None" "name_of (room_of (chat \<sigma>)) 6 = Some ''eve''"
    "(5 :: SOCKET) \<noteq> 6" "list_all (both_stay 5 6) fs" "says_of 5 fs = filter (\<lambda>m. m \<noteq> []) (map snd (responses (cc_calls \<kappa>)))"
    by (simp_all add: room name_of_def fs both_stay_def calls)
  from chat_session [OF client(1,2) run here nick list.distinct(2)] obtain k xs where xs: "map snd (responses (cc_calls \<kappa>)) = ''bob'' # fst (typed_lines k (cc_cin \<kappa>0))"
    "responses (chat_calls (chat \<tau>)) = responses (chat_calls (chat \<sigma>)) @ xs" "name_of (room_of (chat \<tau>)) 5 = Some ''bob''"
    "subseq (map (spoken ''bob'') (filter (\<lambda>m. m \<noteq> []) (fst (typed_lines k (cc_cin \<kappa>0))))) (sent_to 6 xs)"
    by (elim exE conjE) (rule that)
  have "fst (typed_lines k (cc_cin \<kappa>0)) = [''hi'']" using xs(1) calls by simp
  with xs(2,4) have "subseq [''bob: hi'' @ newline] (sent_to 6 (responses (chat_calls (chat \<tau>))))" by (simp add: spoken_def list_emb_append2)
  with calls xs(3) show ?thesis by (intro exI [of _ \<kappa>] exI [of _ \<tau>]) simp
qed

text \<open>
  C31. Nothing marks where a message ends: of the same bytes on the same connection, one way of
  cutting them into receives makes a name and a message, another one long name.
\<close>

theorem chat_not_framed:
  assumes "\<And>h c k. answer os h (Associate c k) \<noteq> 0" "\<And>h c. answer os h (WSARecv c) = 0"
    and "a \<noteq> []" "b \<noteq> []" "length (a @ b) \<le> BUFFER_SIZE"
  shows "\<exists>s es es' \<sigma> \<sigma>'. labelled_run (chat_step os) (chat_started s0 io h) es \<sigma> \<and> labelled_run (chat_step os) (chat_started s0 io h) es' \<sigma>' \<and>
    concat (says_of s es) = concat (says_of s es') \<and>
    name_of (room_of (chat \<sigma>)) s = Some a \<and> name_of (room_of (chat \<sigma>')) s = Some (a @ b)"
proof -
  obtain es \<sigma> where 1: "play os [Accept 5 1, Prompt, Post, Work 1 True a, Work 1 True b] (chat_started s0 io h) = Some (es, \<sigma>)"
    "says_of 5 es = [a, b]" "room_of (chat \<sigma>) = [(5, Some a)]" using framing_runs(1) [OF assms] by blast
  obtain es' \<sigma>' where 2: "play os [Accept 5 1, Prompt, Post, Work 1 True (a @ b)] (chat_started s0 io h) = Some (es', \<sigma>')"
    "says_of 5 es' = [a @ b]" "room_of (chat \<sigma>') = [(5, Some (a @ b))]" using framing_runs(2) [OF assms] by blast
  show ?thesis
    using play_run [OF 1(1)] play_run [OF 2(1)] 1(2,3) 2(2,3) by (intro exI [of _ 5] exI [of _ es] exI [of _ es'] exI [of _ \<sigma>] exI [of _ \<sigma>']) (simp add: name_of_def)
qed

theorem chat_not_framed_witness:
  "\<exists>(\<sigma> :: chat_sys) (\<sigma>' :: chat_sys) s. name_of (room_of (chat \<sigma>)) s = Some ''bob'' \<and> name_of (room_of (chat \<sigma>')) s = Some ''bobhi''"
proof -
  have "length (''bob'' @ ''hi'') \<le> BUFFER_SIZE" by (simp add: BUFFER_SIZE_def)
  from chat_not_framed [OF _ _ _ _ this, of "chatWinsock (\<lambda>h. False)" 3 4 "[]"] show ?thesis by auto
qed

end
