(* ===== verification/Iocp_Echo.thy ===== *)
theory Iocp_Echo
  imports Overlapped_Context Step_Systems
begin

text \<open>
  The echo server on a completion port, \<open>src/tests/IOCP_echo/iocp_server.h\<close> and \<open>iocp_server.cpp\<close>.
  A context alternates between a receive and the send of what was received. No lock is needed:
  a context has one operation at a time, and it belongs to the thread that gets its completion.
\<close>

section \<open>Operations\<close>

text \<open>
  \<open>echo_contexts\<close> is the heap of contexts, \<open>posted\<close> belongs to the kernel: the contexts whose
  operation (of the kind \<open>ctx_operation\<close> says) has been posted and not completed.
\<close>

record echo =
  echo_contexts :: "nat \<Rightarrow> ClientContext option"
  posted :: "nat set"
  echo_calls :: history

text \<open>How an operation ends: normally, or by using a context that was deleted.\<close>

datatype echo_end = Goes_on echo | Bad_context echo

definition echo_emits :: "history \<Rightarrow> echo \<Rightarrow> echo" where
  "echo_emits cs st = st\<lparr>echo_calls := echo_calls st @ cs\<rparr>"

definition put_context :: "nat \<Rightarrow> ClientContext option \<Rightarrow> echo \<Rightarrow> echo" where
  "put_context p c st = st\<lparr>echo_contexts := (echo_contexts st)(p := c)\<rparr>"

text \<open>The end of a failed call: the error is reported, the socket closed, the context deleted.\<close>

definition giveUp :: "winsock \<Rightarrow> string \<Rightarrow> nat \<Rightarrow> SOCKET \<Rightarrow> echo \<Rightarrow> echo" where
  "giveUp os t p s st =
     (let st1 = echo_emits [Cerr t] st;
          e = answer os (echo_calls st1) WSAGetLastError in
      put_context p None (echo_emits [WSAGetLastError, Cerr (int_to_string (sint (ucast e :: u32)) @ newline), Closesocket s] st1))"

text \<open>An overlapped call that fails with another error than that it is pending.\<close>

definition postCall :: "winsock \<Rightarrow> sys_call \<Rightarrow> string \<Rightarrow> nat \<Rightarrow> SOCKET \<Rightarrow> echo \<Rightarrow> echo" where
  "postCall os call t p s st =
     (let st1 = echo_emits [call] st in
      if answer os (echo_calls st) call \<noteq> SOCKET_ERROR then st1\<lparr>posted := insert p (posted st1)\<rparr>
      else
        let st2 = echo_emits [WSAGetLastError] st1 in
        if answer os (echo_calls st1) WSAGetLastError = WSA_IO_PENDING then st2\<lparr>posted := insert p (posted st2)\<rparr>
        else giveUp os t p s st2)"

definition echoReceive :: "winsock \<Rightarrow> nat \<Rightarrow> echo \<Rightarrow> echo_end" where
  "echoReceive os p st =
     (case echo_contexts st p of
        None \<Rightarrow> Bad_context st
      | Some c \<Rightarrow>
          Goes_on (postCall os (WSARecv (ctx_socket c)) ''WSARecv failed: '' p (ctx_socket c)
            (put_context p (Some (c\<lparr>ctx_operation := Read\<rparr>)) st)))"

definition echoCompletion :: "winsock \<Rightarrow> nat \<Rightarrow> nat \<Rightarrow> echo \<Rightarrow> echo_end" where
  "echoCompletion os p bytesTransferred st =
     (case echo_contexts st p of
        None \<Rightarrow> Bad_context st
      | Some c0 \<Rightarrow>
          (case ctx_operation c0 of
             Read \<Rightarrow>
               let c = (terminate_at bytesTransferred c0)\<lparr>ctx_operation := Write\<rparr>;
                   s = ctx_socket c;
                   st1 = echo_emits [Cout (''Received from socket '' @ to_string (unat s) @ '': '' @ c_str (ctx_buffer c) @ newline)]
                     (put_context p (Some c) st) in
               Goes_on (postCall os (WSASend s (take bytesTransferred (ctx_buffer c))) ''WSASend failed: '' p s st1)
           | Write \<Rightarrow> echoReceive os p st))"

text \<open>
  A turn of \<open>workerThread\<close> for context \<open>p\<close>. When its operation was a receive the kernel has put
  \<open>data\<close> in the buffer; after a send \<open>data\<close> only counts the bytes.
\<close>

definition echoTurn :: "winsock \<Rightarrow> nat \<Rightarrow> bool \<Rightarrow> string \<Rightarrow> echo \<Rightarrow> echo_end" where
  "echoTurn os p ok data st =
     (case echo_contexts st p of
        None \<Rightarrow> Bad_context st
      | Some c \<Rightarrow>
          if \<not> ok \<or> data = [] then
            Goes_on (put_context p None (echo_emits [Cout (''Client disconnected. Socket: '' @ to_string (unat (ctx_socket c)) @ newline),
              Closesocket (ctx_socket c)] st))
          else
            let st1 = (if ctx_operation c = Read then put_context p (Some (received data c)) st else st) in
            echoCompletion os p (length data) st1)"

text \<open>A turn of \<open>acceptConnections\<close> up to the first receive; the bool says whether there is one.\<close>

definition echoAccept :: "winsock \<Rightarrow> SOCKET \<Rightarrow> nat \<Rightarrow> echo \<Rightarrow> bool \<times> echo" where
  "echoAccept os s p st =
     (let st1 = put_context p (Some (newContext s))
            (echo_emits [Cout (''Client connected. Socket: '' @ to_string (unat s) @ newline)] st);
          call = Associate s (of_nat p);
          st2 = echo_emits [call] st1 in
      if answer os (echo_calls st1) call = 0
      then (False,
        let st3 = echo_emits [Cerr ''CreateIoCompletionPort for client socket failed: ''] st2;
            e = answer os (echo_calls st3) GetLastError in
        put_context p None (echo_emits [GetLastError, Cerr (int_to_string (sint (ucast e :: u32)) @ newline), Closesocket s] st3))
      else (True, st2))"

section \<open>Starting\<close>

text \<open>A call that fails is reported with its error number, and what was opened is released.\<close>

definition orRelease :: "winsock \<Rightarrow> sys_call \<Rightarrow> (u64 \<Rightarrow> bool) \<Rightarrow> string \<Rightarrow> sys_call \<Rightarrow> sys_call list \<Rightarrow> (history, u64 option) state" where
  "orRelease os c failed t lastError releases = do {
     r \<leftarrow> sys_call os c;
     if failed r then do {
       _ \<leftarrow> cerr t;
       e \<leftarrow> sys_call os lastError;
       _ \<leftarrow> cerr (int_to_string (sint (ucast e :: u32)) @ newline);
       _ \<leftarrow> State (\<lambda>h. ((), h @ releases));
       State_Monad.return None
     }
     else State_Monad.return (Some r)
   }"

text \<open>
  \<open>startServer\<close> with \<open>createSocket\<close>, \<open>bindSocket\<close>, \<open>startListening\<close> and \<open>setupIOCP\<close>, up to the
  threads: the socket and the port if all went well. The number of workers is the capacity the
  constructor reserved.
\<close>

definition startEcho :: "winsock \<Rightarrow> int \<Rightarrow> nat \<Rightarrow> (history, (SOCKET \<times> u64) option) state" where
  "startEcho os port workers = do {
     up \<leftarrow> orRelease os WSAStartup (\<lambda>r. r \<noteq> 0) ''WSAStartup failed: '' WSAGetLastError [];
     case up of None \<Rightarrow> State_Monad.return None | Some _ \<Rightarrow> do {
     sock \<leftarrow> orRelease os WSASocket (\<lambda>r. r = INVALID_SOCKET) ''Socket creation failed: '' WSAGetLastError [WSACleanup];
     case sock of None \<Rightarrow> State_Monad.return None | Some s \<Rightarrow> do {
     let failing = (\<lambda>c t. orRelease os c (\<lambda>r. r = SOCKET_ERROR) t WSAGetLastError [Closesocket s, WSACleanup]);
     reuse \<leftarrow> failing (Setsockopt_reuse s) ''Setsockopt failed: '';
     case reuse of None \<Rightarrow> State_Monad.return None | Some _ \<Rightarrow> do {
     bound \<leftarrow> failing (Bind s (word_of_int port)) ''Bind failed: '';
     case bound of None \<Rightarrow> State_Monad.return None | Some _ \<Rightarrow> do {
     listening \<leftarrow> failing (Listen s) ''Listen failed: '';
     case listening of None \<Rightarrow> State_Monad.return None | Some _ \<Rightarrow> do {
     iocp \<leftarrow> orRelease os CreateIoCompletionPort (\<lambda>r. r = 0) ''CreateIoCompletionPort failed: '' GetLastError [Closesocket s, WSACleanup];
     case iocp of None \<Rightarrow> State_Monad.return None | Some io \<Rightarrow> do {
     assoc \<leftarrow> orRelease os (Associate s s) (\<lambda>r. r = 0) ''CreateIoCompletionPort for server socket failed: '' GetLastError
       [CloseHandle io, Closesocket s, WSACleanup];
     case assoc of None \<Rightarrow> State_Monad.return None | Some _ \<Rightarrow> do {
     _ \<leftarrow> cout (''Server started on port '' @ int_to_string port @ '' with '' @ to_string workers @ '' worker threads.'' @ newline);
     State_Monad.return (Some (s, io)) }}}}}}}}"

section \<open>The threads\<close>

text \<open>
  The accepting thread is between turns, or about to post the first receive. \<open>stopServer\<close> has not
  begun, has cleared the flag, has joined the workers, has returned.
\<close>

datatype echo_accept_pc = Idle | First_receive nat

datatype echo_stop_pc = Echo_running | Echo_cleared | Echo_joined | Echo_stopped

record echo_sys =
  echo :: echo
  echo_serverSocket :: SOCKET
  echo_iocp :: u64
  echo_acceptor :: echo_accept_pc
  echo_stopper :: echo_stop_pc

datatype echo_event = Connects SOCKET | Hears SOCKET string | Flushed SOCKET | Drops SOCKET

definition echo_completed :: "nat \<Rightarrow> echo \<Rightarrow> echo" where
  "echo_completed p st = st\<lparr>posted := posted st - {p}\<rparr>"

text \<open>What a completion of context \<open>c\<close> tells, before what comes of the next operation.\<close>

definition completion_event :: "ClientContext \<Rightarrow> bool \<Rightarrow> string \<Rightarrow> echo_event list" where
  "completion_event c ok data =
     (if \<not> ok \<or> data = [] then []
      else case ctx_operation c of Read \<Rightarrow> [Hears (ctx_socket c) data] | Write \<Rightarrow> [Flushed (ctx_socket c)])"

definition dropped :: "SOCKET \<Rightarrow> nat \<Rightarrow> echo \<Rightarrow> echo_event list" where
  "dropped s p st = (if echo_contexts st p = None then [Drops s] else [])"

text \<open>Workers run until they are joined; one that gets a packet after the flag was cleared drops it.\<close>

definition echo_workers :: "echo_sys \<Rightarrow> bool" where
  "echo_workers \<sigma> \<longleftrightarrow> echo_stopper \<sigma> = Echo_running \<or> echo_stopper \<sigma> = Echo_cleared"

inductive echo_step :: "winsock \<Rightarrow> echo_sys \<Rightarrow> echo_event list \<Rightarrow> echo_sys \<Rightarrow> bool" for os where
  worker: "p \<in> posted (echo \<sigma>) \<Longrightarrow> echo_workers \<sigma> \<Longrightarrow> length data \<le> BUFFER_SIZE \<Longrightarrow> echo_contexts (echo \<sigma>) p = Some c \<Longrightarrow>
    echoTurn os p ok data (echo_completed p (echo \<sigma>)) = Goes_on st \<Longrightarrow>
    echo_step os \<sigma> (completion_event c ok data @ dropped (ctx_socket c) p st) (\<sigma>\<lparr>echo := st\<rparr>)"
| quits: "p \<in> posted (echo \<sigma>) \<Longrightarrow> echo_stopper \<sigma> = Echo_cleared \<Longrightarrow>
    echo_step os \<sigma> [] (\<sigma>\<lparr>echo := echo_completed p (echo \<sigma>)\<rparr>)"
| accept: "echo_acceptor \<sigma> = Idle \<Longrightarrow> echo_stopper \<sigma> \<noteq> Echo_stopped \<Longrightarrow> echo_contexts (echo \<sigma>) p = None \<Longrightarrow>
    (\<forall>q c. echo_contexts (echo \<sigma>) q = Some c \<longrightarrow> ctx_socket c \<noteq> s) \<Longrightarrow> s \<noteq> INVALID_SOCKET \<Longrightarrow>
    echoAccept os s p (echo \<sigma>) = (added, st) \<Longrightarrow>
    echo_step os \<sigma> (if added then [Connects s] else []) (\<sigma>\<lparr>echo := st, echo_acceptor := (if added then First_receive p else Idle)\<rparr>)"
| receive: "echo_acceptor \<sigma> = First_receive p \<Longrightarrow> echo_contexts (echo \<sigma>) p = Some c \<Longrightarrow> echoReceive os p (echo \<sigma>) = Goes_on st \<Longrightarrow>
    echo_step os \<sigma> (dropped (ctx_socket c) p st) (\<sigma>\<lparr>echo := st, echo_acceptor := Idle\<rparr>)"
| clear: "echo_stopper \<sigma> = Echo_running \<Longrightarrow> echo_step os \<sigma> [] (\<sigma>\<lparr>echo_stopper := Echo_cleared\<rparr>)"
| join: "echo_stopper \<sigma> = Echo_cleared \<Longrightarrow> echo_step os \<sigma> [] (\<sigma>\<lparr>echo_stopper := Echo_joined\<rparr>)"
| finish: "echo_stopper \<sigma> = Echo_joined \<Longrightarrow>
    echo_step os \<sigma> []
      (\<sigma>\<lparr>echo := echo_emits [Closesocket (echo_serverSocket \<sigma>), CloseHandle (echo_iocp \<sigma>), WSACleanup,
            Cout (''Server stopped.'' @ newline)] (echo \<sigma>),
          echo_serverSocket := INVALID_SOCKET, echo_stopper := Echo_stopped\<rparr>)"

inductive echo_fault :: "winsock \<Rightarrow> echo_sys \<Rightarrow> bool" for os where
  worker: "p \<in> posted (echo \<sigma>) \<Longrightarrow> echo_workers \<sigma> \<Longrightarrow>
    echoTurn os p ok data (echo_completed p (echo \<sigma>)) = Bad_context st \<Longrightarrow> echo_fault os \<sigma>"
| receive: "echo_acceptor \<sigma> = First_receive p \<Longrightarrow> echoReceive os p (echo \<sigma>) = Bad_context st \<Longrightarrow> echo_fault os \<sigma>"

definition echo_started :: "SOCKET \<Rightarrow> u64 \<Rightarrow> history \<Rightarrow> echo_sys" where
  "echo_started s io h = \<lparr>echo = \<lparr>echo_contexts = (\<lambda>_. None), posted = {}, echo_calls = h\<rparr>,
     echo_serverSocket = s, echo_iocp = io, echo_acceptor = Idle, echo_stopper = Echo_running\<rparr>"

end
