(* ===== verification/Iocp_Echo_Thms.thy ===== *)
theory Iocp_Echo_Thms
  imports Iocp_Echo
begin

text \<open>
  The echo server on a completion port sends back what it receives, whatever the interleaving;
  no thread uses a deleted context; and what \<open>stopServer\<close> leaves behind.
\<close>

section \<open>What the clients see\<close>

type_synonym sessions = "(SOCKET \<times> OperationType) set"

text \<open>The abstract server: who is connected, in which mode. An event out of turn is ignored.\<close>

fun echo_spec :: "echo_event \<Rightarrow> sessions \<Rightarrow> sessions \<times> (SOCKET \<times> string) list" where
  "echo_spec (Connects s) S = (if s \<in> fst ` S then (S, []) else (insert (s, Read) S, []))"
| "echo_spec (Hears s d) S = (if (s, Read) \<in> S then (insert (s, Write) (S - {(s, Read)}), [(s, d)]) else (S, []))"
| "echo_spec (Flushed s) S = (if (s, Write) \<in> S then (insert (s, Read) (S - {(s, Write)}), []) else (S, []))"
| "echo_spec (Drops s) S = ({x \<in> S. fst x \<noteq> s}, [])"

fun echoed_back :: "history \<Rightarrow> (SOCKET \<times> string) list" where
  "echoed_back [] = []"
| "echoed_back (WSASend s d # cs) = (s, d) # echoed_back cs"
| "echoed_back (_ # cs) = echoed_back cs"

lemma echoed_back_append [simp]: "echoed_back (xs @ ys) = echoed_back xs @ echoed_back ys"
  by (induction xs rule: echoed_back.induct) auto

text \<open>What the clients have said, one entry for each receive that completed.\<close>

fun overheard :: "echo_event list \<Rightarrow> (SOCKET \<times> string) list" where
  "overheard [] = []"
| "overheard (Hears s d # es) = (s, d) # overheard es"
| "overheard (_ # es) = overheard es"

lemma overheard_append [simp]: "overheard (xs @ ys) = overheard xs @ overheard ys"
  by (induction xs rule: overheard.induct) auto

lemma overheard_dropped [simp]: "overheard (dropped s p st) = []"
  by (simp add: dropped_def)

definition sessions_of :: "(nat \<Rightarrow> ClientContext option) \<Rightarrow> sessions" where
  "sessions_of m = (\<lambda>c. (ctx_socket c, ctx_operation c)) ` ran m"

definition own_sockets :: "(nat \<Rightarrow> ClientContext option) \<Rightarrow> bool" where
  "own_sockets m \<longleftrightarrow> (\<forall>p q c d. m p = Some c \<longrightarrow> m q = Some d \<longrightarrow> ctx_socket c = ctx_socket d \<longrightarrow> p = q)"

lemma sessions_others:
  assumes "own_sockets m" "m p = Some c"
  shows "ran (m(p := None)) = {d \<in> ran m. ctx_socket d \<noteq> ctx_socket c}"
proof (intro equalityI subsetI)
  fix d assume "d \<in> ran (m(p := None))"
  then obtain q where "q \<noteq> p" "m q = Some d" by (auto simp: ran_def split: if_splits)
  then have "ctx_socket d \<noteq> ctx_socket c" "d \<in> ran m" using assms ranI [of m q d] unfolding own_sockets_def by blast+
  then show "d \<in> {d \<in> ran m. ctx_socket d \<noteq> ctx_socket c}" by simp
next
  fix d assume "d \<in> {d \<in> ran m. ctx_socket d \<noteq> ctx_socket c}"
  then obtain q where "m q = Some d" "ctx_socket d \<noteq> ctx_socket c" by (auto simp: ran_def)
  then have "(m(p := None)) q = Some d" using assms(2) by auto
  then show "d \<in> ran (m(p := None))" by (rule ranI)
qed

lemma sessions_drop:
  assumes "own_sockets m" "m p = Some c"
  shows "sessions_of (m(p := None)) = {x \<in> sessions_of m. fst x \<noteq> ctx_socket c}" and "own_sockets (m(p := None))"
proof -
  show "sessions_of (m(p := None)) = {x \<in> sessions_of m. fst x \<noteq> ctx_socket c}"
    unfolding sessions_of_def sessions_others [OF assms] by (rule set_eqI) (auto simp: image_iff)
  have old: "m q = Some d" if "(m(p := None)) q = Some d" for q d using that by (cases "q = p") simp_all
  show "own_sockets (m(p := None))"
    using assms(1) unfolding own_sockets_def by (intro allI impI) (drule old, drule old, simp only: simp_thms)
qed

lemma sessions_mem: "m p = Some c \<Longrightarrow> (ctx_socket c, ctx_operation c) \<in> sessions_of m"
  unfolding sessions_of_def by (rule imageI [of c, simplified]) (rule ranI)

lemma sessions_only:
  assumes "own_sockets m" "m p = Some c" "x \<in> sessions_of m" "fst x = ctx_socket c"
  shows "x = (ctx_socket c, ctx_operation c)"
proof -
  obtain q d where "m q = Some d" "x = (ctx_socket d, ctx_operation d)" using assms(3) by (auto simp: sessions_of_def ran_def)
  moreover from this have "q = p" using assms(1,2,4) unfolding own_sockets_def by (metis fst_conv)
  ultimately show ?thesis using assms(2) by simp
qed

lemma sessions_put:
  assumes own: "own_sockets m" and p: "m p = Some c" and c': "ctx_socket c' = ctx_socket c"
  shows "sessions_of (m(p \<mapsto> c')) = insert (ctx_socket c', ctx_operation c') (sessions_of m - {(ctx_socket c, ctx_operation c)})"
    and "own_sockets (m(p \<mapsto> c'))"
proof -
  have "ran (m(p \<mapsto> c')) = insert c' (ran (m(p := None)))"
    using ran_map_upd [of "m(p := None)" p c'] by simp
  then have "sessions_of (m(p \<mapsto> c')) = insert (ctx_socket c', ctx_operation c') (sessions_of (m(p := None)))"
    by (simp add: sessions_of_def)
  also have "sessions_of (m(p := None)) = sessions_of m - {(ctx_socket c, ctx_operation c)}"
  proof -
    have "fst x \<noteq> ctx_socket c \<longleftrightarrow> x \<noteq> (ctx_socket c, ctx_operation c)" if "x \<in> sessions_of m" for x
      using sessions_only [OF own p that] by auto
    then show ?thesis unfolding sessions_drop(1) [OF own p] by blast
  qed
  finally show "sessions_of (m(p \<mapsto> c')) = insert (ctx_socket c', ctx_operation c') (sessions_of m - {(ctx_socket c, ctx_operation c)})" .
  have other: "ctx_socket d \<noteq> ctx_socket c'" if "m q = Some d" "q \<noteq> p" for q d
    using own p that unfolding c' own_sockets_def by blast
  show "own_sockets (m(p \<mapsto> c'))"
    unfolding own_sockets_def
  proof (intro allI impI)
    fix q r d e assume h: "(m(p \<mapsto> c')) q = Some d" "(m(p \<mapsto> c')) r = Some e" "ctx_socket d = ctx_socket e"
    show "q = r"
    proof (cases "q = p \<or> r = p")
      case True
      then show ?thesis using h other [of q d] other [of r e] by (auto split: if_splits)
    next
      case False
      then show ?thesis using h own unfolding own_sockets_def by simp
    qed
  qed
qed

lemma sessions_new:
  assumes "own_sockets m" "m p = None" "\<forall>q c. m q = Some c \<longrightarrow> ctx_socket c \<noteq> s"
  shows "sessions_of (m(p \<mapsto> newContext s)) = insert (s, Read) (sessions_of m)" and "own_sockets (m(p \<mapsto> newContext s))"
proof -
  have "ran (m(p \<mapsto> newContext s)) = insert (newContext s) (ran m)" using assms(2) by (rule ran_map_upd)
  then show "sessions_of (m(p \<mapsto> newContext s)) = insert (s, Read) (sessions_of m)"
    by (simp add: sessions_of_def) (simp add: newContext_def)
  show "own_sockets (m(p \<mapsto> newContext s))" using assms by (auto simp: own_sockets_def split: if_splits)
qed

section \<open>Operations\<close>

lemma echo_simps [simp]:
  "echo_contexts (echo_emits cs st) = echo_contexts st" "posted (echo_emits cs st) = posted st"
  "echo_calls (echo_emits cs st) = echo_calls st @ cs"
  "echo_contexts (put_context p c st) = (echo_contexts st)(p := c)" "posted (put_context p c st) = posted st"
  "echo_calls (put_context p c st) = echo_calls st"
  "echo_contexts (echo_completed p st) = echo_contexts st" "posted (echo_completed p st) = posted st - {p}"
  "echo_calls (echo_completed p st) = echo_calls st"
  by (simp_all add: echo_emits_def put_context_def echo_completed_def)

text \<open>A posted call keeps the context; one that cannot be posted deletes it.\<close>

definition after_post :: "nat \<Rightarrow> echo \<Rightarrow> (SOCKET \<times> string) list \<Rightarrow> echo \<Rightarrow> bool" where
  "after_post p st xs st' \<longleftrightarrow>
     echoed_back (echo_calls st') = echoed_back (echo_calls st) @ xs \<and>
     (echo_contexts st' = echo_contexts st \<and> posted st' = insert p (posted st) \<or>
      echo_contexts st' = (echo_contexts st)(p := None) \<and> posted st' = posted st)"

lemma postCall_after: "after_post p st (echoed_back [call]) (postCall os call t p s st)"
  by (auto simp: after_post_def postCall_def giveUp_def Let_def simp del: append_assoc echoed_back.simps)
     (simp_all add: append_assoc)

lemma echoReceive_after:
  assumes "echo_contexts st p = Some c"
  obtains st' where "echoReceive os p st = Goes_on st'"
    "after_post p (put_context p (Some (c\<lparr>ctx_operation := Read\<rparr>)) st) [] st'"
  using assms postCall_after [where call = "WSARecv (ctx_socket c)"] by (auto simp: echoReceive_def)

section \<open>The invariant\<close>

fun first_of :: "echo_accept_pc \<Rightarrow> nat set" where
  "first_of (First_receive p) = {p}"
| "first_of Idle = {}"

text \<open>
  Each socket has one context; a context with an operation posted and one whose first receive is
  still to be posted are allocated, and different; while the server runs there are no others.
\<close>

definition echo_inv :: "echo_sys \<Rightarrow> bool" where
  "echo_inv \<sigma> \<longleftrightarrow>
     own_sockets (echo_contexts (echo \<sigma>)) \<and>
     posted (echo \<sigma>) \<union> first_of (echo_acceptor \<sigma>) \<subseteq> dom (echo_contexts (echo \<sigma>)) \<and>
     posted (echo \<sigma>) \<inter> first_of (echo_acceptor \<sigma>) = {} \<and>
     (\<forall>p c. echo_acceptor \<sigma> = First_receive p \<longrightarrow> echo_contexts (echo \<sigma>) p = Some c \<longrightarrow> ctx_operation c = Read) \<and>
     (echo_stopper \<sigma> = Echo_running \<longrightarrow> dom (echo_contexts (echo \<sigma>)) \<subseteq> posted (echo \<sigma>) \<union> first_of (echo_acceptor \<sigma>))"

definition echoes :: "echo_sys \<Rightarrow> echo_event list \<Rightarrow> echo_sys \<Rightarrow> bool" where
  "echoes \<sigma> es \<tau> \<longleftrightarrow>
     machine_run echo_spec es (sessions_of (echo_contexts (echo \<sigma>))) = (sessions_of (echo_contexts (echo \<tau>)), overheard es) \<and>
     echoed_back (echo_calls (echo \<tau>)) = echoed_back (echo_calls (echo \<sigma>)) @ overheard es"

text \<open>A call posted for context \<open>p\<close>: it is posted, or the context is gone.\<close>

definition settled :: "nat \<Rightarrow> (nat \<Rightarrow> ClientContext option) \<Rightarrow> nat set \<Rightarrow> echo \<Rightarrow> bool" where
  "settled p m P st' \<longleftrightarrow>
     (\<forall>q. q \<noteq> p \<longrightarrow> echo_contexts st' q = m q) \<and>
     (p \<in> dom (echo_contexts st') \<and> posted st' = insert p P \<or> p \<notin> dom (echo_contexts st') \<and> posted st' = P)"

lemma posted_events:
  assumes own: "own_sockets m" and p: "m p = Some c" "ctx_socket c' = ctx_socket c"
    and after: "after_post p st xs st'" and st: "echo_contexts st = m(p \<mapsto> c')"
    and ev: "machine_run echo_spec es (sessions_of m) = (sessions_of (m(p \<mapsto> c')), xs)"
  shows "own_sockets (echo_contexts st')"
    and "machine_run echo_spec (es @ dropped (ctx_socket c) p st') (sessions_of m) = (sessions_of (echo_contexts st'), xs)"
    and "settled p m (posted st) st'"
proof -
  have own': "own_sockets (m(p \<mapsto> c'))" by (rule sessions_put [OF own p])
  consider (kept) "echo_contexts st' = m(p \<mapsto> c')" "posted st' = insert p (posted st)"
    | (gone) "echo_contexts st' = (m(p \<mapsto> c'))(p := None)" "posted st' = posted st"
    using after st by (auto simp: after_post_def)
  then have "own_sockets (echo_contexts st') \<and>
      machine_run echo_spec (es @ dropped (ctx_socket c) p st') (sessions_of m) = (sessions_of (echo_contexts st'), xs) \<and>
      settled p m (posted st) st'"
  proof cases
    case kept
    then show ?thesis using own' ev by (simp add: dropped_def settled_def)
  next
    case gone
    have "sessions_of (echo_contexts st') = {x \<in> sessions_of (m(p \<mapsto> c')). fst x \<noteq> ctx_socket c}"
      using sessions_drop(1) [OF own', of p c'] p(2) gone(1) by simp
    moreover have "own_sockets (echo_contexts st')" using sessions_drop(2) [OF own', of p c'] gone(1) by simp
    ultimately show ?thesis using gone ev by (simp add: dropped_def machine_run_append settled_def)
  qed
  then show "own_sockets (echo_contexts st')"
    and "machine_run echo_spec (es @ dropped (ctx_socket c) p st') (sessions_of m) = (sessions_of (echo_contexts st'), xs)"
    and "settled p m (posted st) st'"
    by blast+
qed

lemma settled_dom:
  assumes "settled p m P st'" "m p = Some c"
  shows "(dom (echo_contexts st') = dom m \<and> posted st' = insert p P \<or> dom (echo_contexts st') = dom m - {p} \<and> posted st' = P) \<and>
    (\<forall>q. q \<noteq> p \<longrightarrow> echo_contexts st' q = m q)"
proof -
  have others: "\<forall>q. q \<noteq> p \<longrightarrow> echo_contexts st' q = m q" using assms(1) by (simp add: settled_def)
  have "dom (echo_contexts st') = dom m" if "p \<in> dom (echo_contexts st')" using others that assms(2) by (auto simp: dom_def)
  moreover have "dom (echo_contexts st') = dom m - {p}" if "p \<notin> dom (echo_contexts st')"
    using others that by (auto simp: dom_def) (metis option.discI)+
  ultimately show ?thesis using assms(1) others unfolding settled_def by blast
qed

section \<open>Turns\<close>

lemma echoCompletion_read:
  assumes "echo_contexts st p = Some (received data c)" "ctx_operation c = Read"
  shows "\<exists>st0 st'. echoCompletion os p (length data) st = Goes_on st' \<and>
    after_post p st0 [(ctx_socket c, data)] st' \<and> posted st0 = posted st \<and> echoed_back (echo_calls st0) = echoed_back (echo_calls st) \<and>
    echo_contexts st0 = (echo_contexts st)(p \<mapsto> (terminate_at (length data) (received data c))\<lparr>ctx_operation := Write\<rparr>)"
proof -
  let ?c = "(terminate_at (length data) (received data c))\<lparr>ctx_operation := Write\<rparr>"
  let ?st0 = "echo_emits [Cout (''Received from socket '' @ to_string (unat (ctx_socket ?c)) @ '': '' @ c_str (ctx_buffer ?c) @ newline)]
    (put_context p (Some ?c) st)"
  have "echoCompletion os p (length data) st =
      Goes_on (postCall os (WSASend (ctx_socket c) data) ''WSASend failed: '' p (ctx_socket c) ?st0)"
    using assms by (simp add: echoCompletion_def Let_def take_terminated)
  moreover have "after_post p ?st0 [(ctx_socket c, data)]
      (postCall os (WSASend (ctx_socket c) data) ''WSASend failed: '' p (ctx_socket c) ?st0)"
    using postCall_after [of p ?st0 "WSASend (ctx_socket c) data"] by (simp only: echoed_back.simps)
  ultimately show ?thesis by (intro exI [of _ ?st0] exI conjI) (assumption | simp)+
qed

text \<open>A turn of a worker for a context of the server.\<close>

lemma echoTurn_sound:
  assumes own: "own_sockets (echo_contexts st)" and p: "echo_contexts st p = Some c"
  obtains st' where "echoTurn os p ok data st = Goes_on st'" "own_sockets (echo_contexts st')"
    "settled p (echo_contexts st) (posted st) st'" "echoed_back (echo_calls st') = echoed_back (echo_calls st) @ overheard (completion_event c ok data)"
    "machine_run echo_spec (completion_event c ok data @ dropped (ctx_socket c) p st') (sessions_of (echo_contexts st)) =
       (sessions_of (echo_contexts st'), overheard (completion_event c ok data))"
proof (cases "ok \<and> data \<noteq> []")
  case False
  let ?st' = "put_context p None (echo_emits [Cout (''Client disconnected. Socket: '' @ to_string (unat (ctx_socket c)) @ newline),
    Closesocket (ctx_socket c)] st)"
  have "echoTurn os p ok data st = Goes_on ?st'" using False p by (simp add: echoTurn_def)
  then show thesis
    using that [of ?st'] sessions_drop [OF own p] False by (simp add: settled_def dropped_def completion_event_def)
next
  case True
  have mem: "(ctx_socket c, ctx_operation c) \<in> sessions_of (echo_contexts st)" using p by (rule sessions_mem)
  show thesis
  proof (cases "ctx_operation c")
    case Read
    let ?st1 = "put_context p (Some (received data c)) st"
    let ?c = "(terminate_at (length data) (received data c))\<lparr>ctx_operation := Write\<rparr>"
    obtain st0 st' where turn: "echoCompletion os p (length data) ?st1 = Goes_on st'"
      "after_post p st0 [(ctx_socket c, data)] st'" "posted st0 = posted st" "echoed_back (echo_calls st0) = echoed_back (echo_calls st)"
      "echo_contexts st0 = (echo_contexts st)(p \<mapsto> ?c)"
      using echoCompletion_read [of ?st1 p data c os] Read by (simp add: fun_upd_upd) blast
    have "machine_run echo_spec [Hears (ctx_socket c) data] (sessions_of (echo_contexts st)) =
        (sessions_of ((echo_contexts st)(p \<mapsto> ?c)), [(ctx_socket c, data)])"
      using sessions_put(1) [OF own p, of ?c] mem Read by simp
    note ev = posted_events [OF own p _ turn(2,5) this, simplified]
    show thesis
      using that [of st'] turn True p ev Read
      by (simp add: echoTurn_def completion_event_def after_post_def)
  next
    case Write
    obtain st' where turn: "echoReceive os p st = Goes_on st'"
      "after_post p (put_context p (Some (c\<lparr>ctx_operation := Read\<rparr>)) st) [] st'"
      by (rule echoReceive_after [where os = os, OF p])
    have "machine_run echo_spec [Flushed (ctx_socket c)] (sessions_of (echo_contexts st)) =
        (sessions_of ((echo_contexts st)(p \<mapsto> c\<lparr>ctx_operation := Read\<rparr>)), [])"
      using sessions_put(1) [OF own p, of "c\<lparr>ctx_operation := Read\<rparr>"] mem Write by simp
    note ev = posted_events [OF own p _ turn(2) _ this, simplified]
    show thesis
      using that [of st'] turn True p ev Write
      by (simp add: echoTurn_def completion_event_def after_post_def echoCompletion_def)
  qed
qed

section \<open>Steps\<close>

lemma worker_sound:
  assumes inv: "echo_inv \<sigma>" and p: "p \<in> posted (echo \<sigma>)" "echo_contexts (echo \<sigma>) p = Some c"
    and turn: "echoTurn os p ok data (echo_completed p (echo \<sigma>)) = Goes_on st"
  shows "echo_inv (\<sigma>\<lparr>echo := st\<rparr>) \<and> echoes \<sigma> (completion_event c ok data @ dropped (ctx_socket c) p st) (\<sigma>\<lparr>echo := st\<rparr>)"
proof -
  have own: "own_sockets (echo_contexts (echo_completed p (echo \<sigma>)))" and p': "echo_contexts (echo_completed p (echo \<sigma>)) p = Some c"
    using inv p(2) by (simp_all add: echo_inv_def)
  obtain st' where t: "echoTurn os p ok data (echo_completed p (echo \<sigma>)) = Goes_on st'" "own_sockets (echo_contexts st')"
    "settled p (echo_contexts (echo_completed p (echo \<sigma>))) (posted (echo_completed p (echo \<sigma>))) st'"
    "echoed_back (echo_calls st') = echoed_back (echo_calls (echo_completed p (echo \<sigma>))) @ overheard (completion_event c ok data)"
    "machine_run echo_spec (completion_event c ok data @ dropped (ctx_socket c) p st')
       (sessions_of (echo_contexts (echo_completed p (echo \<sigma>)))) = (sessions_of (echo_contexts st'), overheard (completion_event c ok data))"
    by (rule echoTurn_sound [OF own p'])
  have st': "st' = st" using t(1) turn by simp
  have settled: "settled p (echo_contexts (echo \<sigma>)) (posted (echo \<sigma>) - {p}) st" using t(3) st' by simp
  have "p \<notin> first_of (echo_acceptor \<sigma>)" using inv p(1) by (auto simp: echo_inv_def)
  moreover have "echo_contexts st q = echo_contexts (echo \<sigma>) q" if "q \<in> first_of (echo_acceptor \<sigma>)" for q
    using that calculation settled_dom [OF settled p(2)] by metis
  moreover have "own_sockets (echo_contexts st)" using t(2) st' by simp
  moreover have "insert p (posted (echo \<sigma>) - {p}) = posted (echo \<sigma>)" using p(1) by blast
  ultimately have "echo_inv (\<sigma>\<lparr>echo := st\<rparr>)"
    using inv settled_dom [OF settled p(2)] by (elim conjE disjE) (simp_all add: echo_inv_def, (blast | fastforce)+)
  then show ?thesis using t(4,5) st' by (simp add: echoes_def)
qed

lemma receive_sound:
  assumes inv: "echo_inv \<sigma>" and a: "echo_acceptor \<sigma> = First_receive p" and p: "echo_contexts (echo \<sigma>) p = Some c"
    and turn: "echoReceive os p (echo \<sigma>) = Goes_on st"
  shows "echo_inv (\<sigma>\<lparr>echo := st, echo_acceptor := Idle\<rparr>) \<and>
    echoes \<sigma> (dropped (ctx_socket c) p st) (\<sigma>\<lparr>echo := st, echo_acceptor := Idle\<rparr>)"
proof -
  have own: "own_sockets (echo_contexts (echo \<sigma>))" and read: "c\<lparr>ctx_operation := Read\<rparr> = c"
    using inv a p by (auto simp: echo_inv_def)
  obtain st' where "echoReceive os p (echo \<sigma>) = Goes_on st'"
    "after_post p (put_context p (Some (c\<lparr>ctx_operation := Read\<rparr>)) (echo \<sigma>)) [] st'"
    by (rule echoReceive_after [where os = os, OF p])
  then have after: "after_post p (echo \<sigma>) [] st" using turn p by (simp add: read after_post_def fun_upd_idem)
  have "machine_run echo_spec [] (sessions_of (echo_contexts (echo \<sigma>))) = (sessions_of ((echo_contexts (echo \<sigma>))(p \<mapsto> c)), [])"
    using p by (simp add: fun_upd_idem)
  note ev = posted_events [OF own p refl after _ this, simplified]
  have same: "echo_contexts (echo \<sigma>) = (echo_contexts (echo \<sigma>))(p \<mapsto> c)" using p by (simp add: fun_upd_idem)
  have "echo_inv (\<sigma>\<lparr>echo := st, echo_acceptor := Idle\<rparr>)"
    using inv a ev(1) [OF same] settled_dom [OF ev(3) [OF same] p]
    by (elim conjE disjE) (simp_all add: echo_inv_def, (blast | fastforce)+)
  then show ?thesis using ev(2) [OF same] after by (simp add: echoes_def after_post_def)
qed

lemma accept_sound:
  assumes inv: "echo_inv \<sigma>" and a: "echo_acceptor \<sigma> = Idle" and p: "echo_contexts (echo \<sigma>) p = None"
    and new: "\<forall>q c. echo_contexts (echo \<sigma>) q = Some c \<longrightarrow> ctx_socket c \<noteq> s"
    and turn: "echoAccept os s p (echo \<sigma>) = (added, st)"
  defines "\<tau> \<equiv> \<sigma>\<lparr>echo := st, echo_acceptor := (if added then First_receive p else Idle)\<rparr>"
  shows "echo_inv \<tau> \<and> echoes \<sigma> (if added then [Connects s] else []) \<tau>"
proof -
  have own: "own_sockets (echo_contexts (echo \<sigma>))" using inv by (simp add: echo_inv_def)
  have calls: "echoed_back (echo_calls st) = echoed_back (echo_calls (echo \<sigma>))" and posted: "posted st = posted (echo \<sigma>)"
    and ctxs: "echo_contexts st = (if added then (echo_contexts (echo \<sigma>))(p \<mapsto> newContext s) else echo_contexts (echo \<sigma>))"
    using turn p by (auto simp: echoAccept_def Let_def fun_upd_idem split: if_splits)
  have free: "p \<notin> posted (echo \<sigma>)" using inv p by (auto simp: echo_inv_def)
  show ?thesis
  proof (cases added)
    case True
    have "s \<notin> fst ` sessions_of (echo_contexts (echo \<sigma>))"
      using new unfolding sessions_of_def ran_def by fastforce
    then have "echoes \<sigma> [Connects s] \<tau>"
      using sessions_new(1) [OF own p new] True calls ctxs by (simp add: echoes_def \<tau>_def)
    moreover have "echo_inv \<tau>"
      using inv a free posted ctxs True sessions_new(2) [OF own p new]
      by (auto simp: echo_inv_def \<tau>_def newContext_def)
    ultimately show ?thesis using True by simp
  next
    case False
    then show ?thesis using inv a calls posted ctxs by (simp add: echo_inv_def echoes_def \<tau>_def)
  qed
qed

lemma echo_step_sound:
  assumes "echo_step os \<sigma> es \<tau>" and "echo_inv \<sigma>"
  shows "echo_inv \<tau> \<and> echoes \<sigma> es \<tau>"
  using assms
proof (cases rule: echo_step.cases)
  case (worker p data c ok st)
  then show ?thesis using worker_sound [OF assms(2), of p c os ok data st] by simp
next
  case (quits p)
  then show ?thesis using assms(2) by (auto simp: echo_inv_def echoes_def)
next
  case (accept p s added st)
  then show ?thesis using accept_sound [OF assms(2), of p s os added st] by simp
next
  case (receive p c st)
  then show ?thesis using receive_sound [OF assms(2), of p c os st] by simp
qed (use assms(2) in \<open>simp_all add: echo_inv_def echoes_def\<close>)

interpretation echo_server: trace_refinement "echo_step os" echo_inv "\<lambda>\<sigma>. sessions_of (echo_contexts (echo \<sigma>))"
    "\<lambda>\<sigma>. echoed_back (echo_calls (echo \<sigma>))" echo_spec for os
proof
  show "echo_inv t" if "echo_inv s" "echo_step os s es t" for s es t
    using echo_step_sound [OF that(2,1)] by blast
  show "\<exists>xs. machine_run echo_spec es (sessions_of (echo_contexts (echo s))) = (sessions_of (echo_contexts (echo t)), xs) \<and>
      echoed_back (echo_calls (echo t)) = echoed_back (echo_calls (echo s)) @ xs" if "echo_inv s" "echo_step os s es t" for s es t
    using echo_step_sound [OF that(2,1)] by (simp add: echoes_def)
qed

text \<open>The same system as a plain echo: what goes out is what came in.\<close>

lemma overheard_run: "machine_run (\<lambda>e u. ((), overheard [e])) es () = ((), overheard es)"
proof (induction es)
  case (Cons e es)
  then show ?case using overheard_append [of "[e]" es] by simp
qed simp

interpretation echo_back: trace_refinement "echo_step os" echo_inv "\<lambda>\<sigma>. ()"
    "\<lambda>\<sigma>. echoed_back (echo_calls (echo \<sigma>))" "\<lambda>e u. ((), overheard [e])" for os
proof
  show "echo_inv t" if "echo_inv s" "echo_step os s es t" for s es t
    using echo_step_sound [OF that(2,1)] by blast
  show "\<exists>xs. machine_run (\<lambda>e u. ((), overheard [e])) es () = ((), xs) \<and>
      echoed_back (echo_calls (echo t)) = echoed_back (echo_calls (echo s)) @ xs" if "echo_inv s" "echo_step os s es t" for s es t
    using echo_step_sound [OF that(2,1)] by (simp add: echoes_def overheard_run)
qed

lemma echo_started_inv: "echo_inv (echo_started s io h)" "sessions_of (echo_contexts (echo (echo_started s io h))) = {}"
  "echo_calls (echo (echo_started s io h)) = h"
  by (simp_all add: echo_started_def echo_inv_def own_sockets_def sessions_of_def)

text \<open>The accepting thread touches no context but its own.\<close>

lemma others_kept:
  "echoAccept os s q st = (b, st') \<Longrightarrow> p \<noteq> q \<Longrightarrow> echo_contexts st' p = echo_contexts st p"
  "echoReceive os q st = Goes_on st' \<Longrightarrow> p \<noteq> q \<Longrightarrow> echo_contexts st' p = echo_contexts st p"
  by (auto simp: echoAccept_def echoReceive_def postCall_def giveUp_def Let_def split: if_splits option.splits)

section \<open>Starting\<close>

lemma run_orRelease:
  "run_state (orRelease os c failed t e releases) h =
     (if failed (answer os h c)
      then (None, h @ [c, Cerr t, e, Cerr (int_to_string (sint (ucast (answer os (h @ [c, Cerr t]) e) :: u32)) @ newline)] @ releases)
      else (Some (answer os h c), h @ [c]))"
  by (simp add: orRelease_def)

text \<open>A start that fails closes the socket and the port it had, and ends Winsock if it had begun.\<close>

lemma startEcho_balanced:
  assumes "run_state (startEcho os port n) h = (None, h')"
  shows "\<exists>cs. h' = h @ WSAStartup # cs \<and>
    count_list cs WSACleanup = (if answer os h WSAStartup = 0 then 1 else 0) \<and>
    (\<forall>x. count_list cs (Closesocket x) =
       (if answer os h WSAStartup = 0 \<and> x = answer os (h @ [WSAStartup]) WSASocket \<and> x \<noteq> INVALID_SOCKET then 1 else 0))"
  using assms
  by (auto simp: startEcho_def run_orRelease Let_def split: if_splits)

section \<open>A run to look at\<close>

definition echoWinsock :: winsock where
  "echoWinsock = \<lparr>answer = (\<lambda>h c. case c of Associate s k \<Rightarrow> 1 | _ \<Rightarrow> 0), format_message = (\<lambda>h c. None)\<rparr>"

lemma echoWinsock_answers [simp]:
  "answer echoWinsock h (Associate s k) = 1" "answer echoWinsock h (WSARecv s) = 0" "answer echoWinsock h (WSASend s d) = 0"
  by (simp_all add: echoWinsock_def)

lemma echo_hi:
  "\<exists>\<sigma>. labelled_run (echo_step echoWinsock) (echo_started 3 4 []) [Connects 5, Hears 5 ''hi''] \<sigma> \<and>
     echo_stopper \<sigma> = Echo_running \<and> echo_acceptor \<sigma> = Idle \<and> (\<exists>c. echo_contexts (echo \<sigma>) 1 = Some c) \<and> posted (echo \<sigma>) = {1}"
proof -
  note defs = echoAccept_def echoReceive_def echoTurn_def echoCompletion_def postCall_def SOCKET_ERROR_def BUFFER_SIZE_def Let_def
  let ?\<sigma>0 = "echo_started 3 4 [] :: echo_sys" and ?step = "echo_step echoWinsock"
  obtain \<sigma>1 :: echo_sys where \<sigma>1: "?step ?\<sigma>0 [Connects 5] \<sigma>1" "echo_acceptor \<sigma>1 = First_receive 1"
    "echo_contexts (echo \<sigma>1) = [1 \<mapsto> newContext 5]" "echo_stopper \<sigma>1 = Echo_running" "posted (echo \<sigma>1) = {}"
    using echo_step.accept [of ?\<sigma>0 1 5 echoWinsock True "snd (echoAccept echoWinsock 5 1 (echo ?\<sigma>0))"]
    by (simp add: echo_started_def defs INVALID_SOCKET_def)
  obtain st2 where st2: "echoReceive echoWinsock 1 (echo \<sigma>1) = Goes_on st2" "echo_contexts st2 = [1 \<mapsto> newContext 5]" "posted st2 = {1}"
    using \<sigma>1 by (simp add: defs newContext_def)
  let ?\<sigma>2 = "\<sigma>1\<lparr>echo := st2, echo_acceptor := Idle\<rparr>"
  have step2: "?step \<sigma>1 [] ?\<sigma>2"
    using echo_step.receive [of \<sigma>1 1 "newContext 5" echoWinsock st2] \<sigma>1 st2 by (simp add: dropped_def)
  obtain st3 c where st3: "echoTurn echoWinsock 1 True ''hi'' (echo_completed 1 st2) = Goes_on st3" "echo_contexts st3 1 = Some c" "posted st3 = {1}"
    using st2 by (simp add: defs newContext_def received_def)
  have step3: "?step ?\<sigma>2 [Hears 5 ''hi''] (?\<sigma>2\<lparr>echo := st3\<rparr>)"
    using echo_step.worker [of 1 ?\<sigma>2 "''hi''" "newContext 5" echoWinsock True st3] \<sigma>1 st2 st3
    by (simp add: dropped_def completion_event_def echo_workers_def BUFFER_SIZE_def) (simp add: newContext_def)
  note one = labelled_run_one [of ?step]
  have "labelled_run ?step ?\<sigma>0 (([Connects 5] @ []) @ [Hears 5 ''hi'']) (?\<sigma>2\<lparr>echo := st3\<rparr>)"
    by (rule labelled_run_trans [OF one [OF step3] labelled_run_trans [OF one [OF step2] one [OF \<sigma>1(1)]]])
  then show ?thesis using \<sigma>1 st3 by (intro exI [of _ "?\<sigma>2\<lparr>echo := st3\<rparr>"]) simp
qed

section \<open>Properties\<close>

text \<open>
  C21. On every interleaving of its threads, with every answer of Winsock, the echo server on a
  completion port sends each client exactly what it received from it, in the order of the
  receives, and its contexts are those of the clients connected, each with a receive or a send,
  never both, under way; no completion arrives for a client in the other mode.
\<close>

theorem iocp_echo_refines:
  assumes "labelled_run (echo_step os) (echo_started s io h) es \<sigma>"
  shows "machine_run echo_spec es {} = (sessions_of (echo_contexts (echo \<sigma>)), overheard es) \<and>
    echoed_back (echo_calls (echo \<sigma>)) = echoed_back h @ overheard es"
proof -
  have "echoed_back (echo_calls (echo \<sigma>)) = echoed_back h @ overheard es"
    using echo_back.refines [OF assms echo_started_inv(1)] by (simp add: overheard_run echo_started_inv)
  then show ?thesis using echo_server.refines [OF assms echo_started_inv(1)] by (simp add: echo_started_inv)
qed

theorem iocp_echo_refines_witness:
  "\<exists>\<sigma> :: echo_sys. echoed_back (echo_calls (echo \<sigma>)) = [(5, ''hi'')] \<and> sessions_of (echo_contexts (echo \<sigma>)) = {(5, Write)}"
proof -
  obtain \<sigma> where "labelled_run (echo_step echoWinsock) (echo_started 3 4 []) [Connects 5, Hears 5 ''hi''] \<sigma>" using echo_hi by blast
  from iocp_echo_refines [OF this] show ?thesis by (intro exI [of _ \<sigma>]) auto
qed

text \<open>
  C29. No thread of the echo server ever uses a deleted context, and none is waited for by two:
  an operation is posted, or the accepting thread has the first one still to post, for different
  allocated contexts; and while the server runs for every allocated one.
\<close>

theorem iocp_echo_sound:
  assumes "labelled_run (echo_step os) (echo_started s io h) es \<sigma>"
  shows "\<not> echo_fault os \<sigma> \<and> posted (echo \<sigma>) \<inter> first_of (echo_acceptor \<sigma>) = {} \<and>
    posted (echo \<sigma>) \<union> first_of (echo_acceptor \<sigma>) \<subseteq> dom (echo_contexts (echo \<sigma>)) \<and>
    (echo_stopper \<sigma> = Echo_running \<longrightarrow> dom (echo_contexts (echo \<sigma>)) = posted (echo \<sigma>) \<union> first_of (echo_acceptor \<sigma>))"
proof -
  have inv: "echo_inv \<sigma>" by (rule echo_server.I_run [OF assms echo_started_inv(1)])
  have "\<not> echo_fault os \<sigma>"
  proof
    assume "echo_fault os \<sigma>"
    then show False
    proof (cases rule: echo_fault.cases)
      case (worker p ok data st)
      then obtain c where "echo_contexts (echo_completed p (echo \<sigma>)) p = Some c" using inv by (auto simp: echo_inv_def)
      note c = this
      have own: "own_sockets (echo_contexts (echo_completed p (echo \<sigma>)))" using inv by (simp add: echo_inv_def)
      obtain st' where "echoTurn os p ok data (echo_completed p (echo \<sigma>)) = Goes_on st'"
        by (rule echoTurn_sound [where os = os and ok = ok and data = data, OF own c])
      with worker show False by simp
    next
      case (receive p st)
      then obtain c where "echo_contexts (echo \<sigma>) p = Some c" using inv by (auto simp: echo_inv_def)
      with receive show False by (simp add: echoReceive_def)
    qed
  qed
  then show ?thesis using inv by (auto simp: echo_inv_def)
qed

theorem iocp_echo_sound_witness:
  "\<exists>\<sigma> :: echo_sys. \<not> echo_fault echoWinsock \<sigma> \<and> dom (echo_contexts (echo \<sigma>)) = {1}"
proof -
  obtain \<sigma> where run: "labelled_run (echo_step echoWinsock) (echo_started 3 4 []) [Connects 5, Hears 5 ''hi''] \<sigma>"
    "echo_stopper \<sigma> = Echo_running" "echo_acceptor \<sigma> = Idle" "posted (echo \<sigma>) = {1}" using echo_hi by blast
  from iocp_echo_sound [OF run(1)] run(2-4) show ?thesis by (intro exI [of _ \<sigma>]) simp
qed

text \<open>
  \<open>stopServer\<close> frees no client: once the workers are joined, a context that is not in the hands
  of the accepting thread stays allocated, whatever happens afterwards.
\<close>

theorem iocp_echo_leaks:
  assumes "labelled_run (echo_step os) (echo_started s io h) es \<sigma>" and "echo_stopper \<sigma> = Echo_joined"
    and "labelled_run (echo_step os) \<sigma> fs \<tau>" and "echo_contexts (echo \<sigma>) p = Some c" and "p \<notin> first_of (echo_acceptor \<sigma>)"
  shows "echo_contexts (echo \<tau>) p = Some c"
proof -
  have "echo_contexts (echo \<tau>) p = Some c \<and> p \<notin> first_of (echo_acceptor \<tau>) \<and> \<not> echo_workers \<tau>"
    using assms(3-5) assms(2)
  proof (induction rule: labelled_run.induct)
    case here
    then show ?case by (simp add: echo_workers_def)
  next
    case (move \<sigma> es \<tau> fs \<upsilon>)
    then have IH: "echo_contexts (echo \<tau>) p = Some c" "p \<notin> first_of (echo_acceptor \<tau>)" "\<not> echo_workers \<tau>" by blast+
    from move.hyps(2) show ?case
    proof (cases rule: echo_step.cases)
      case (accept q s' added st)
      then have "q \<noteq> p" using IH(1) by auto
      then show ?thesis using accept IH others_kept(1) [of os s' q "echo \<tau>" added st p] by (auto simp: echo_workers_def)
    next
      case (receive q d st)
      then have "q \<noteq> p" using IH(2) by auto
      then show ?thesis using receive IH others_kept(2) [of os q "echo \<tau>" st p] by (simp add: echo_workers_def)
    qed (use IH in \<open>auto simp: echo_workers_def\<close>)
  qed
  then show ?thesis by blast
qed

theorem iocp_echo_leaks_witness:
  "\<exists>(\<sigma> :: echo_sys) c. echo_stopper \<sigma> = Echo_stopped \<and> echo_contexts (echo \<sigma>) 1 = Some c"
proof -
  let ?step = "echo_step echoWinsock"
  obtain \<sigma> c where run: "labelled_run ?step (echo_started 3 4 []) [Connects 5, Hears 5 ''hi''] \<sigma>" "echo_stopper \<sigma> = Echo_running"
    "echo_acceptor \<sigma> = Idle" "echo_contexts (echo \<sigma>) 1 = Some c" using echo_hi by blast
  let ?\<sigma>1 = "\<sigma>\<lparr>echo_stopper := Echo_cleared\<rparr>" and ?\<sigma>2 = "\<sigma>\<lparr>echo_stopper := Echo_joined\<rparr>"
  note one = labelled_run_one [of ?step]
  have "?step \<sigma> [] ?\<sigma>1" by (rule echo_step.clear [OF run(2)])
  moreover have "?step ?\<sigma>1 [] ?\<sigma>2" using echo_step.join [of ?\<sigma>1 echoWinsock] by simp
  ultimately have joined: "labelled_run ?step (echo_started 3 4 []) (([Connects 5, Hears 5 ''hi''] @ []) @ []) ?\<sigma>2"
    using labelled_run_trans [OF one labelled_run_trans [OF one run(1)]] by blast
  obtain \<tau> where fin: "?step ?\<sigma>2 [] \<tau>" "echo_stopper \<tau> = Echo_stopped" using echo_step.finish [of ?\<sigma>2 echoWinsock] by auto
  have "echo_contexts (echo \<tau>) 1 = Some c"
    using iocp_echo_leaks [OF joined _ one [OF fin(1)], of 1 c] run(3,4) by simp
  with fin(2) show ?thesis by blast
qed

end
