(* ===== verification/Simple_Echo.thy ===== *)
theory Simple_Echo
  imports Thread_Server
begin

text \<open>
  The three small echo servers the others grew from: \<open>src/tests/simple_echo/echo_server.cpp\<close>, one
  \<open>main\<close>; \<open>src/tests/oop_echo/oop_server.cpp\<close> with \<open>run_oop_server.cpp\<close>, the same as a class;
  \<open>src/tests/thread_echo/thread_server.cpp\<close>, a detached thread for each client. The classes start
  with the \<open>startServer\<close> of the threaded server, which was copied from them.

  \<open>answers\<close> is what \<open>recv\<close> gives in turn; when it ends the program is still in \<open>recv\<close>, and the
  result None.
\<close>

section \<open>One client after the other\<close>

fun echoTurns :: "winsock \<Rightarrow> SOCKET \<Rightarrow> recv_result list \<Rightarrow> (history, recv_result option) state" where
  "echoTurns os c [] = State_Monad.return None"
| "echoTurns os c (Received data # answers) = do {
     _ \<leftarrow> cout (''Received: '' @ data @ newline);
     _ \<leftarrow> sys_call os (Send c data);
     _ \<leftarrow> cout (''Echoed back.'' @ newline);
     echoTurns os c answers
   }"
| "echoTurns os c (Disconnected # answers) = do {
     _ \<leftarrow> cout (''Client disconnected.'' @ newline);
     State_Monad.return (Some Disconnected)
   }"
| "echoTurns os c (Recv_error e # answers) = do {
     _ \<leftarrow> errorLine os ''Recv failed: '';
     State_Monad.return (Some (Recv_error e))
   }"

text \<open>\<open>main\<close> of \<open>echo_server.cpp\<close>: the exit code.\<close>

definition listeningLine :: string where
  "listeningLine = ''Server is listening on port 8080...'' @ newline"

definition simpleMain :: "winsock \<Rightarrow> recv_result list \<Rightarrow> (history, int option) state" where
  "simpleMain os answers = do {
     r \<leftarrow> sys_call os WSAStartup;
     if r \<noteq> 0 then do { _ \<leftarrow> cerr (''WSAStartup failed.'' @ newline); State_Monad.return (Some 1) }
     else do {
       s \<leftarrow> sys_call os Socket;
       if s = INVALID_SOCKET then do {
         _ \<leftarrow> errorLine os ''Socket creation failed: '';
         _ \<leftarrow> sys_call os WSACleanup;
         State_Monad.return (Some 1)
       }
       else do {
         bound \<leftarrow> guardCall os s (Bind s 8080) ''Bind failed: '';
         if \<not> bound then State_Monad.return (Some 1)
         else do {
           listening \<leftarrow> guardCall os s (Listen s) ''Listen failed: '';
           if \<not> listening then State_Monad.return (Some 1)
           else do {
             _ \<leftarrow> cout listeningLine;
             c \<leftarrow> sys_call os (Accept_on s);
             if c = INVALID_SOCKET then do {
               _ \<leftarrow> errorLine os ''Accept failed: '';
               _ \<leftarrow> sys_call os (Closesocket s);
               _ \<leftarrow> sys_call os WSACleanup;
               State_Monad.return (Some 1)
             }
             else do {
               _ \<leftarrow> cout (''Client connected.'' @ newline);
               ended \<leftarrow> echoTurns os c answers;
               case ended of
                 None \<Rightarrow> State_Monad.return None
               | Some e \<Rightarrow> do {
                   _ \<leftarrow> sys_call os (Closesocket c);
                   _ \<leftarrow> sys_call os (Closesocket s);
                   _ \<leftarrow> sys_call os WSACleanup;
                   State_Monad.return (Some (if e = Disconnected then 0 else 1))
                 }
             }
           }
         }
       }
     }
   }"

section \<open>The class\<close>

record oop_server =
  oop_base :: thread_server
  oop_client :: SOCKET

definition newOop :: "int \<Rightarrow> oop_server" where
  "newOop port = \<lparr>oop_base = newThreadServer port, oop_client = INVALID_SOCKET\<rparr>"

definition acceptConnection :: "winsock \<Rightarrow> oop_server \<Rightarrow> (history, bool \<times> oop_server) state" where
  "acceptConnection os sv = do {
     c \<leftarrow> sys_call os (Accept_on (serverSocket (oop_base sv)));
     let sv1 = sv\<lparr>oop_client := c\<rparr>;
     if c = INVALID_SOCKET then do {
       _ \<leftarrow> errorLine os ''Accept failed: '';
       State_Monad.return (False, sv1)
     }
     else do {
       _ \<leftarrow> cout (''Client connected.'' @ newline);
       State_Monad.return (True, sv1)
     }
   }"

text \<open>\<open>run\<close>; the bool says whether it has returned.\<close>

definition runOop :: "winsock \<Rightarrow> recv_result list \<Rightarrow> oop_server \<Rightarrow> (history, bool \<times> oop_server) state" where
  "runOop os answers sv =
     (if \<not> isRunning (oop_base sv) then State_Monad.return (True, sv)
      else do {
        (ok, sv1) \<leftarrow> acceptConnection os sv;
        if \<not> ok then State_Monad.return (True, sv1)
        else do {
          ended \<leftarrow> echoTurns os (oop_client sv1) answers;
          case ended of
            None \<Rightarrow> State_Monad.return (False, sv1)
          | Some e \<Rightarrow> do {
              _ \<leftarrow> sys_call os (Closesocket (oop_client sv1));
              State_Monad.return (True, sv1)
            }
        }
      })"

definition closeOop :: "winsock \<Rightarrow> oop_server \<Rightarrow> (history, oop_server) state" where
  "closeOop os sv = do {
     _ \<leftarrow> closeSocket os (oop_client sv);
     _ \<leftarrow> closeSocket os (serverSocket (oop_base sv));
     _ \<leftarrow> sys_call os WSACleanup;
     State_Monad.return (sv\<lparr>oop_base := (oop_base sv)\<lparr>isRunning := False\<rparr>\<rparr>)
   }"

text \<open>\<open>main\<close> of \<open>run_oop_server.cpp\<close>, with the destructor of the server at its end.\<close>

definition oopMain :: "winsock \<Rightarrow> recv_result list \<Rightarrow> (history, int option) state" where
  "oopMain os answers = do {
     (started, base) \<leftarrow> startServer os (oop_base (newOop 8080));
     let sv = (newOop 8080)\<lparr>oop_base := base\<rparr>;
     if \<not> started then do {
       _ \<leftarrow> closeOop os sv;
       State_Monad.return (Some 1)
     }
     else do {
       (returned, sv1) \<leftarrow> runOop os answers sv;
       if \<not> returned then State_Monad.return None
       else do {
         sv2 \<leftarrow> closeOop os sv1;
         _ \<leftarrow> closeOop os sv2;
         State_Monad.return (Some 0)
       }
     }
   }"

section \<open>A thread for each client\<close>

text \<open>\<open>handleClient\<close>: the loop, then the socket is closed.\<close>

fun echoClientTurns :: "winsock \<Rightarrow> SOCKET \<Rightarrow> recv_result list \<Rightarrow> (history, bool) state" where
  "echoClientTurns os c [] = State_Monad.return False"
| "echoClientTurns os c (Received data # answers) = do {
     _ \<leftarrow> cout (''Received from client '' @ showSocket c @ '': '' @ data @ newline);
     _ \<leftarrow> sys_call os (Send c data);
     echoClientTurns os c answers
   }"
| "echoClientTurns os c (Disconnected # answers) = do {
     _ \<leftarrow> cout (''Client disconnected. Socket: '' @ showSocket c @ newline);
     State_Monad.return True
   }"
| "echoClientTurns os c (Recv_error e # answers) = do {
     _ \<leftarrow> errorLine os (''Recv failed for client '' @ showSocket c @ '': '');
     State_Monad.return True
   }"

definition echoClient :: "winsock \<Rightarrow> SOCKET \<Rightarrow> recv_result list \<Rightarrow> (history, bool) state" where
  "echoClient os c answers = do {
     _ \<leftarrow> cout (''Client connected. Socket: '' @ showSocket c @ newline);
     ended \<leftarrow> echoClientTurns os c answers;
     if ended then do {
       _ \<leftarrow> sys_call os (Closesocket c);
       State_Monad.return True
     }
     else State_Monad.return False
   }"

text \<open>
  The vector of threads, of which only \<open>joinable()\<close> matters. \<open>run\<close> erases the joinable ones after
  joining them, then appends the new thread and detaches it; \<open>cleanupThreads\<close> erases those that
  are not joinable. The first component lists the threads joined so far.
\<close>

definition joinJoinable :: "bool list \<Rightarrow> nat \<times> bool list" where
  "joinJoinable ts = (length (filter id ts), filter Not ts)"

definition emplaceDetached :: "bool list \<Rightarrow> bool list" where
  "emplaceDetached ts = (ts @ [True])[length ts := False]"

definition cleanupThreads :: "bool list \<Rightarrow> bool list" where
  "cleanupThreads ts = filter id ts"

text \<open>Turns of the loop of \<open>run\<close>: the flag, and the flag again if \<open>accept\<close> has failed.\<close>

fun echoAccepts :: "winsock \<Rightarrow> SOCKET \<Rightarrow> (bool \<times> bool) list \<Rightarrow> nat \<times> bool list \<times> SOCKET list \<Rightarrow> (history, nat \<times> bool list \<times> SOCKET list) state" where
  "echoAccepts os s [] st = State_Monad.return st"
| "echoAccepts os s ((flag, again) # turns) (joins, ts, started) =
     (if \<not> flag then State_Monad.return (joins, ts, started)
      else do {
        c \<leftarrow> sys_call os (Accept_on s);
        if c = INVALID_SOCKET then
          (if again then do {
             _ \<leftarrow> errorLine os ''Accept failed: '';
             echoAccepts os s turns (joins, ts, started)
           }
           else echoAccepts os s turns (joins, ts, started))
        else
          (case joinJoinable ts of
             (n, ts1) \<Rightarrow> echoAccepts os s turns (joins + n, emplaceDetached ts1, started @ [c]))
      })"

record echo_pool =
  pool_socket :: SOCKET
  pool_running :: bool
  pool_threads :: "bool list"

definition closePool :: "winsock \<Rightarrow> echo_pool \<Rightarrow> (history, echo_pool) state" where
  "closePool os sv = do {
     _ \<leftarrow> closeSocket os (pool_socket sv);
     _ \<leftarrow> sys_call os WSACleanup;
     State_Monad.return (sv\<lparr>pool_running := False, pool_socket := INVALID_SOCKET, pool_threads := cleanupThreads (pool_threads sv)\<rparr>)
   }"

section \<open>What they send and close\<close>

text \<open>What the client has said before the end.\<close>

fun said :: "recv_result list \<Rightarrow> string list" where
  "said (Received data # answers) = data # said answers"
| "said _ = []"

fun session_end :: "recv_result list \<Rightarrow> recv_result option" where
  "session_end [] = None"
| "session_end (Received data # answers) = session_end answers"
| "session_end (e # answers) = Some e"

lemma run_errorLine:
  "run_state (errorLine os t) h =
    ((), h @ [Cerr t, WSAGetLastError, Cerr (int_to_string (sint (ucast (answer os (h @ [Cerr t]) WSAGetLastError) :: u32)) @ newline)])"
  by (simp add: errorLine_def)

lemma run_guardCall:
  "run_state (guardCall os s c t) h =
     (if answer os h c = SOCKET_ERROR
      then (False, h @ [c, Cerr t, WSAGetLastError, Cerr (int_to_string (sint (ucast (answer os (h @ [c, Cerr t]) WSAGetLastError) :: u32)) @ newline),
              Closesocket s, WSACleanup])
      else (True, h @ [c]))"
  by (simp add: guardCall_def run_errorLine)

text \<open>A part of a run that closes nothing and does not end Winsock.\<close>

definition lets_open :: "history \<Rightarrow> bool" where
  "lets_open cs \<longleftrightarrow> WSACleanup \<notin> set cs \<and> (\<forall>s. Closesocket s \<notin> set cs)"

lemma run_echoTurns:
  "\<exists>cs. run_state (echoTurns os c answers) h = (session_end answers, h @ cs) \<and> lets_open cs \<and>
     responses cs = map (Pair c) (said answers)"
proof (induction answers arbitrary: h rule: said.induct)
  case (1 data answers)
  let ?cs = "[Cout (''Received: '' @ data @ newline), Send c data, Cout (''Echoed back.'' @ newline)]"
  obtain cs where "run_state (echoTurns os c answers) (h @ ?cs) = (session_end answers, (h @ ?cs) @ cs)" "lets_open cs"
    "responses cs = map (Pair c) (said answers)" using 1 by blast
  then show ?case by (intro exI [of _ "?cs @ cs"]) (simp add: lets_open_def)
qed (simp_all add: run_errorLine lets_open_def)

lemma run_echoClientTurns:
  "\<exists>cs. run_state (echoClientTurns os c answers) h = (session_end answers \<noteq> None, h @ cs) \<and> lets_open cs \<and>
     responses cs = map (Pair c) (said answers)"
proof (induction answers arbitrary: h rule: said.induct)
  case (1 data answers)
  let ?cs = "[Cout (''Received from client '' @ showSocket c @ '': '' @ data @ newline), Send c data]"
  obtain cs where "run_state (echoClientTurns os c answers) (h @ ?cs) = (session_end answers \<noteq> None, (h @ ?cs) @ cs)" "lets_open cs"
    "responses cs = map (Pair c) (said answers)" using 1 by blast
  then show ?case by (intro exI [of _ "?cs @ cs"]) (simp add: lets_open_def)
qed (simp_all add: run_errorLine lets_open_def)

lemma echoTurns_total:
  obtains f where "\<And>c h. run_state (echoTurns os c answers) h = (session_end answers, h @ f c h)"
    "\<And>c h. lets_open (f c h)" "\<And>c h. responses (f c h) = map (Pair c) (said answers)"
proof -
  have "\<forall>c h. \<exists>cs. run_state (echoTurns os c answers) h = (session_end answers, h @ cs) \<and> lets_open cs \<and>
     responses cs = map (Pair c) (said answers)" using run_echoTurns by blast
  then show thesis using that by metis
qed

text \<open>How often a part of a run ends Winsock, and which sockets it closes, each as often as it is listed.\<close>

definition released :: "nat \<Rightarrow> SOCKET list \<Rightarrow> history \<Rightarrow> bool" where
  "released n ss cs \<longleftrightarrow> count_list cs WSACleanup = n \<and> (\<forall>x. count_list cs (Closesocket x) = count_list ss x)"

lemma released_append: "lets_open cs \<Longrightarrow> released n ss (xs @ cs @ ys) = released n ss (xs @ ys)"
  by (simp add: released_def lets_open_def)

text \<open>How a run of the first server ends.\<close>

lemma simpleMain_run:
  assumes "run_state (simpleMain os answers) h = (code, h')"
  shows "\<exists>cs. h' = h @ WSAStartup # cs \<and>
    (let s = answer os (h @ [WSAStartup]) Socket in
     code = Some 1 \<and> responses cs = [] \<and>
       (if answer os h WSAStartup \<noteq> 0 then released 0 [] cs else released 1 (if s = INVALID_SOCKET then [] else [s]) cs) \<or>
     (\<exists>c. responses cs = map (Pair c) (said answers) \<and>
        code = map_option (\<lambda>e. if e = Disconnected then 0 else 1) (session_end answers) \<and>
        (if code = None then released 0 [] cs else released 1 [c, s] cs)))"
proof -
  obtain f where f: "\<And>c h. run_state (echoTurns os c answers) h = (session_end answers, h @ f c h)"
    "\<And>c h. lets_open (f c h)" "\<And>c h. responses (f c h) = map (Pair c) (said answers)"
    by (rule echoTurns_total [of os answers]) (rule that)
  have closed: "count_list (f c h) WSACleanup = 0" "count_list (f c h) (Closesocket x) = 0" for c h x
    using f(2) [of c h] by (simp_all add: lets_open_def)
  define s where "s = answer os (h @ [WSAStartup]) Socket"
  let ?b = "h @ [WSAStartup, Socket]"
  let ?l = "h @ [WSAStartup, Socket, Bind s 8080]"
  let ?a = "h @ [WSAStartup, Socket, Bind s 8080, Listen s, Cout listeningLine]"
  define c where "c = answer os ?a (Accept_on s)"
  let ?e = "?a @ [Accept_on s, Cout (''Client connected.'' @ newline)]"
  note sc = s_def [symmetric] c_def [symmetric]
  consider (startup) "answer os h WSAStartup \<noteq> 0"
    | (sock) "answer os h WSAStartup = 0" "s = INVALID_SOCKET"
    | (bound) "answer os h WSAStartup = 0" "s \<noteq> INVALID_SOCKET" "answer os ?b (Bind s 8080) = SOCKET_ERROR"
    | (listening) "answer os h WSAStartup = 0" "s \<noteq> INVALID_SOCKET" "answer os ?b (Bind s 8080) \<noteq> SOCKET_ERROR"
        "answer os ?l (Listen s) = SOCKET_ERROR"
    | (accepts) "answer os h WSAStartup = 0" "s \<noteq> INVALID_SOCKET" "answer os ?b (Bind s 8080) \<noteq> SOCKET_ERROR"
        "answer os ?l (Listen s) \<noteq> SOCKET_ERROR" "c = INVALID_SOCKET"
    | (serves) "answer os h WSAStartup = 0" "s \<noteq> INVALID_SOCKET" "answer os ?b (Bind s 8080) \<noteq> SOCKET_ERROR"
        "answer os ?l (Listen s) \<noteq> SOCKET_ERROR" "c \<noteq> INVALID_SOCKET"
    by blast
  then show ?thesis
  proof cases
    case serves
    then have "run_state (simpleMain os answers) h =
      (map_option (\<lambda>e. if e = Disconnected then 0 else 1) (session_end answers),
       ?e @ f c ?e @ (if session_end answers = None then [] else [Closesocket c, Closesocket s, WSACleanup]))"
      by (cases "session_end answers") (simp_all add: simpleMain_def run_guardCall f(1) sc)
    then show ?thesis
      using assms serves(1) by (intro exI [of _ "drop (length h + 1) h'"]) (auto simp: f(3) closed released_def Let_def sc)
  qed (use assms in \<open>clarsimp simp: simpleMain_def run_guardCall run_errorLine released_def sc\<close>)+
qed

lemma released_simps [simp]:
  "released n ss [] = (n = 0 \<and> ss = [])"
  "released n ss (xs @ [WSACleanup]) = (n \<noteq> 0 \<and> released (n - 1) ss xs)"
proof -
  have "(\<forall>x. 0 = count_list ss x) = (ss = [])" by (cases ss) (auto simp: exI [of _ "hd ss"])
  then show "released n ss [] = (n = 0 \<and> ss = [])" by (auto simp: released_def)
  show "released n ss (xs @ [WSACleanup]) = (n \<noteq> 0 \<and> released (n - 1) ss xs)" by (auto simp: released_def)
qed

lemma startServer_run:
  "\<exists>ok sv cs. run_state (startServer os (newThreadServer port)) h = ((ok, sv), h @ WSAStartup # cs) \<and> responses cs = [] \<and> isRunning sv = ok \<and>
     (if answer os h WSAStartup \<noteq> 0 then \<not> ok \<and> serverSocket sv = INVALID_SOCKET \<and> released 0 [] cs
      else serverSocket sv = answer os (h @ [WSAStartup]) Socket \<and>
        (if serverSocket sv = INVALID_SOCKET then \<not> ok \<and> released 1 [] cs
         else released (if ok then 0 else 1) (if ok then [] else [serverSocket sv]) cs))"
  by (auto simp: startServer_def openSocket_def bindServer_def listenServer_def run_guardCall run_errorLine newThreadServer_def
      released_def Let_def)

lemma runOop_run:
  assumes "isRunning (oop_base sv)"
  shows "\<exists>returned sv' cs. run_state (runOop os answers sv) h = ((returned, sv'), h @ cs) \<and> oop_base sv' = oop_base sv \<and>
    (if oop_client sv' = INVALID_SOCKET then returned \<and> responses cs = [] \<and> released 0 [] cs
     else responses cs = map (Pair (oop_client sv')) (said answers) \<and> returned = (session_end answers \<noteq> None) \<and>
       released 0 (if returned then [oop_client sv'] else []) cs)"
proof -
  obtain f where f: "\<And>c h. run_state (echoTurns os c answers) h = (session_end answers, h @ f c h)"
    "\<And>c h. lets_open (f c h)" "\<And>c h. responses (f c h) = map (Pair c) (said answers)"
    by (rule echoTurns_total [of os answers]) (rule that)
  have closed: "count_list (f c h) WSACleanup = 0" "count_list (f c h) (Closesocket x) = 0" for c h x
    using f(2) [of c h] by (simp_all add: lets_open_def)
  define c where "c = answer os h (Accept_on (serverSocket (oop_base sv)))"
  note run = runOop_def acceptConnection_def run_errorLine f(1) assms c_def [symmetric]
  show ?thesis
  proof (cases "c = INVALID_SOCKET")
    case True
    then show ?thesis by (simp add: run released_def) blast
  next
    case False
    then show ?thesis by (cases "session_end answers") (simp_all add: run f(3) closed released_def, blast+)
  qed
qed

lemma closeOop_run:
  "run_state (closeOop os sv) h =
     (sv\<lparr>oop_base := (oop_base sv)\<lparr>isRunning := False\<rparr>\<rparr>,
      h @ (if oop_client sv = INVALID_SOCKET then [] else [Closesocket (oop_client sv)]) @
        (if serverSocket (oop_base sv) = INVALID_SOCKET then [] else [Closesocket (serverSocket (oop_base sv))]) @ [WSACleanup])"
  by (simp add: closeOop_def closeSocket_def)

text \<open>The threaded one: each client gets back what it said, and its socket is closed once.\<close>

lemma run_echoClient:
  "\<exists>cs. run_state (echoClient os c answers) h = (session_end answers \<noteq> None, h @ cs) \<and>
     responses cs = map (Pair c) (said answers) \<and> released 0 (if session_end answers = None then [] else [c]) cs"
proof -
  let ?h = "h @ [Cout (''Client connected. Socket: '' @ showSocket c @ newline)]"
  obtain cs where "run_state (echoClientTurns os c answers) ?h = (session_end answers \<noteq> None, ?h @ cs)" "lets_open cs"
    "responses cs = map (Pair c) (said answers)" using run_echoClientTurns by blast
  then show ?thesis by (simp add: echoClient_def released_def lets_open_def)
qed

text \<open>No thread is ever joined: all are detached, and the vector keeps one entry for each client so far.\<close>

lemma echoAccepts_detached:
  "\<exists>st'. fst (run_state (echoAccepts os s turns (j, replicate (length st) False, st)) h) = (j, replicate (length st') False, st')"
proof (induction turns arbitrary: st h)
  case (Cons t turns)
  obtain flag again where t: "t = (flag, again)" by (cases t)
  have join: "joinJoinable (replicate n False) = (0, replicate n False)" for n
    by (simp add: joinJoinable_def)
  have append: "emplaceDetached (replicate n False) = replicate (Suc n) False" for n
    by (simp add: emplaceDetached_def list_update_append replicate_append_same)
  have "\<exists>st'. fst (run_state (echoAccepts os s turns (j, replicate (Suc (length st)) False, st @ [c])) h') = (j, replicate (length st') False, st')"
    for c h' using Cons.IH [of "st @ [c]" h'] by simp
  then show ?case
    using Cons.IH [of st] by (simp add: t run_errorLine join append del: replicate_Suc)
qed simp

text \<open>\<open>closeServer\<close> and then the destructor: the socket is closed once, Winsock ended twice, the vector empty.\<close>

lemma closePool_twice:
  assumes "pool_threads sv = replicate n False"
  shows "run_state (do { sv1 \<leftarrow> closePool os sv; closePool os sv1 }) h =
    (\<lparr>pool_socket = INVALID_SOCKET, pool_running = False, pool_threads = []\<rparr>,
     h @ (if pool_socket sv = INVALID_SOCKET then [] else [Closesocket (pool_socket sv)]) @ [WSACleanup, WSACleanup])"
  using assms by (simp add: closePool_def closeSocket_def cleanupThreads_def)

section \<open>Properties\<close>

text \<open>
  The first echo server sends its client what the client has said, message by message, until
  the end of the session, and its exit code tells how that was. Whatever fails, it releases what
  it holds exactly once: Winsock when it was begun, the listening socket when there is one, and
  the client.
\<close>

theorem simple_echo_correct:
  "\<exists>code cs. run_state (simpleMain os answers) h = (code, h @ WSAStartup # cs) \<and>
    (let s = answer os (h @ [WSAStartup]) Socket in
     code = Some 1 \<and> responses cs = [] \<and>
       (if answer os h WSAStartup \<noteq> 0 then released 0 [] cs else released 1 (if s = INVALID_SOCKET then [] else [s]) cs) \<or>
     (\<exists>c. responses cs = map (Pair c) (said answers) \<and>
        code = map_option (\<lambda>e. if e = Disconnected then 0 else 1) (session_end answers) \<and>
        (if code = None then released 0 [] cs else released 1 [c, s] cs)))"
  using simpleMain_run [OF surjective_pairing, of os answers h] by (metis surjective_pairing)

text \<open>
  The same server as a class releases too often: Winsock is ended once more than it was begun,
  the listening socket is closed twice and the client three times, because \<open>closeServer\<close> forgets
  neither socket and the destructor calls it again. What it sends is right.
\<close>

theorem oop_echo_releases_again:
  "\<exists>code cs. run_state (oopMain os answers) h = (code, h @ WSAStartup # cs) \<and>
    (let s = answer os (h @ [WSAStartup]) Socket in
     code = Some 1 \<and> responses cs = [] \<and>
       (if answer os h WSAStartup \<noteq> 0 then released 1 [] cs else released 2 (if s = INVALID_SOCKET then [] else [s, s]) cs) \<or>
     code = Some 0 \<and> responses cs = [] \<and> released 2 [s, s] cs \<or>
     (\<exists>c. responses cs = map (Pair c) (said answers) \<and> code = map_option (\<lambda>e. 0) (session_end answers) \<and>
        (if code = None then released 0 [] cs else released 2 [c, c, c, s, s] cs)))"
proof -
  obtain ok sv cs where start: "run_state (startServer os (newThreadServer 8080)) h = ((ok, sv), h @ WSAStartup # cs)"
    "responses cs = []" "isRunning sv = ok"
    "if answer os h WSAStartup \<noteq> 0 then \<not> ok \<and> serverSocket sv = INVALID_SOCKET \<and> released 0 [] cs
      else serverSocket sv = answer os (h @ [WSAStartup]) Socket \<and>
        (if serverSocket sv = INVALID_SOCKET then \<not> ok \<and> released 1 [] cs
         else released (if ok then 0 else 1) (if ok then [] else [serverSocket sv]) cs)"
    using startServer_run [of os 8080 h] by blast
  show ?thesis
  proof (cases ok)
    case False
    then show ?thesis
      using start by (auto simp: oopMain_def newOop_def closeOop_run released_def Let_def split: if_splits)
  next
    case True
    let ?sv = "(newOop 8080)\<lparr>oop_base := sv\<rparr>" and ?h = "h @ WSAStartup # cs"
    obtain returned sv' ds where run: "run_state (runOop os answers ?sv) ?h = ((returned, sv'), ?h @ ds)" "oop_base sv' = sv"
      "if oop_client sv' = INVALID_SOCKET then returned \<and> responses ds = [] \<and> released 0 [] ds
       else responses ds = map (Pair (oop_client sv')) (said answers) \<and> returned = (session_end answers \<noteq> None) \<and>
         released 0 (if returned then [oop_client sv'] else []) ds"
      using runOop_run [of ?sv os answers ?h] start(3) True by auto
    have s: "serverSocket sv = answer os (h @ [WSAStartup]) Socket" "serverSocket sv \<noteq> INVALID_SOCKET" "released 0 [] cs"
      using start(4) True by (auto split: if_splits)
    show ?thesis
      using True start(1,2) run s by (auto simp: oopMain_def newOop_def closeOop_run released_def Let_def split: if_splits)
  qed
qed

end
